theory Spec2Isabelle
  imports Main "HOL-Library.AList"
begin

section \<open>RDF terms and the shape graph\<close>

text \<open>
  The converter of \<^verbatim>\<open>SHACLtoXSD.py\<close> reads an rdflib graph and builds an ElementTree.
  An rdflib term is a \<^verbatim>\<open>URIRef\<close>, a \<^verbatim>\<open>BNode\<close> or a \<^verbatim>\<open>Literal\<close>; all three are
  subclasses of \<^verbatim>\<open>str\<close>. A literal carries its lexical form (what \<^verbatim>\<open>str()\<close> gives), its
  kind (plain, language-tagged or typed), and the truth value that \<^verbatim>\<open>Literal.__bool__\<close>
  computes from the converted Python value: the literals \<^verbatim>\<open>0\<close>, \<^verbatim>\<open>false\<close> and \<^verbatim>\<open>""\<close>
  are falsy.

  The converter compares terms with \<^verbatim>\<open>==\<close> (line 503, and the tests against
  \<^verbatim>\<open>RDF.nil\<close>), looks them up in the graph, and uses them as members of a \<^verbatim>\<open>set\<close> and
  keys of a \<^verbatim>\<open>dict\<close>; all of these go through \<^verbatim>\<open>__eq__\<close> and \<^verbatim>\<open>__hash__\<close> of the term.
  Two terms of different classes are never equal; two \<^verbatim>\<open>URIRef\<close> or two \<^verbatim>\<open>BNode\<close> are
  equal when their strings are; \<^verbatim>\<open>Literal.__eq__\<close> asks for equal lexical forms, equal
  datatypes and equal language tags \<^emph>\<open>after lower-casing\<close>: \<^verbatim>\<open>"5"@en == "5"@EN\<close>. The
  converter never reads \<^verbatim>\<open>.language\<close> or \<^verbatim>\<open>.datatype\<close> of a literal. A language-tagged
  literal is therefore represented with its tag in lower case, as \<open>lang_literal\<close> below
  builds it, so that equality of \<open>node\<close> is \<^verbatim>\<open>==\<close> of the terms.
\<close>

datatype lit_kind =
    Plain
  | Language string
  | Datatype string

datatype node =
    URIRef string
  | BNode string
  | Literal (lexical: string) (kind: lit_kind) (lit_truth: bool)

text \<open>\<^verbatim>\<open>str.lower()\<close> on a language tag; tags are ASCII.\<close>

definition lower_char :: "char \<Rightarrow> char" where
  "lower_char c =
     (case map_of (zip ''ABCDEFGHIJKLMNOPQRSTUVWXYZ'' ''abcdefghijklmnopqrstuvwxyz'') c of
        None \<Rightarrow> c
      | Some d \<Rightarrow> d)"

definition py_lower :: "string \<Rightarrow> string" where
  "py_lower text = map lower_char text"

text \<open>
  \<^verbatim>\<open>Literal(lexical, lang=tag)\<close>, \<^verbatim>\<open>Literal(lexical, datatype=iri)\<close> and
  \<^verbatim>\<open>Literal(lexical)\<close> as terms; the last argument is the truth value of the literal.
\<close>

definition lang_literal :: "string \<Rightarrow> string \<Rightarrow> bool \<Rightarrow> node" where
  "lang_literal l tag t = Literal l (Language (py_lower tag)) t"

definition typed_literal :: "string \<Rightarrow> string \<Rightarrow> bool \<Rightarrow> node" where
  "typed_literal l iri t = Literal l (Datatype iri) t"

definition plain_literal :: "string \<Rightarrow> bool \<Rightarrow> node" where
  "plain_literal l t = Literal l Plain t"

fun py_str :: "node \<Rightarrow> string" where
  "py_str (URIRef u) = u"
| "py_str (BNode b) = b"
| "py_str (Literal l k t) = l"

text \<open>Truthiness of a term in \<^verbatim>\<open>if x:\<close>; a \<^verbatim>\<open>str\<close> is falsy when empty.\<close>

fun truthy :: "node \<Rightarrow> bool" where
  "truthy (URIRef u) = (u \<noteq> [])"
| "truthy (BNode b) = (b \<noteq> [])"
| "truthy (Literal l k t) = t"

text \<open>\<^verbatim>\<open>if x:\<close> for an optional term: \<^verbatim>\<open>None\<close> is falsy.\<close>

fun is_true :: "node option \<Rightarrow> bool" where
  "is_true None = False"
| "is_true (Some x) = truthy x"

type_synonym triple = "node \<times> node \<times> node"

text \<open>The graph in iteration order of its triples.\<close>

type_synonym graph = "triple list"

definition SHACL_objects :: "graph \<Rightarrow> node \<Rightarrow> node \<Rightarrow> node list" where
  "SHACL_objects g subj pred =
     map (\<lambda>(s, p, ob). ob) (filter (\<lambda>(s, p, ob). s = subj \<and> p = pred) g)"

definition SHACL_subjects :: "graph \<Rightarrow> node \<Rightarrow> node \<Rightarrow> node list" where
  "SHACL_subjects g pred obj =
     map (\<lambda>(s, p, ob). s) (filter (\<lambda>(s, p, ob). p = pred \<and> ob = obj) g)"

text \<open>\<^verbatim>\<open>Graph.value(subject, predicate)\<close>: the first object, or \<^verbatim>\<open>None\<close>.\<close>

definition SHACL_value :: "graph \<Rightarrow> node \<Rightarrow> node \<Rightarrow> node option" where
  "SHACL_value g subj pred =
     (case SHACL_objects g subj pred of [] \<Rightarrow> None | x # xs \<Rightarrow> Some x)"

text \<open>\<^verbatim>\<open>(s, p, o) in graph\<close>.\<close>

definition SHACL_contains :: "graph \<Rightarrow> triple \<Rightarrow> bool" where
  "SHACL_contains g t = (t \<in> set g)"

subsection \<open>Vocabulary\<close>

definition sh :: "string \<Rightarrow> node" where
  "sh local = URIRef (''http://www.w3.org/ns/shacl#'' @ local)"

definition rdf :: "string \<Rightarrow> node" where
  "rdf local = URIRef (''http://www.w3.org/1999/02/22-rdf-syntax-ns#'' @ local)"

abbreviation "RDF_nil \<equiv> rdf ''nil''"
abbreviation "RDF_first \<equiv> rdf ''first''"
abbreviation "RDF_rest \<equiv> rdf ''rest''"
abbreviation "RDF_type \<equiv> rdf ''type''"

section \<open>Strings\<close>

text \<open>\<^verbatim>\<open>s.startswith(p)\<close>.\<close>

fun startswith :: "string \<Rightarrow> string \<Rightarrow> bool" where
  "startswith s [] = True"
| "startswith [] (p # ps) = False"
| "startswith (c # cs) (p # ps) = (c = p \<and> startswith cs ps)"

text \<open>\<^verbatim>\<open>sub in s\<close>.\<close>

fun py_in :: "string \<Rightarrow> string \<Rightarrow> bool" where
  "py_in sub [] = (sub = [])"
| "py_in sub (c # cs) = (startswith (c # cs) sub \<or> py_in sub cs)"

text \<open>
  \<^verbatim>\<open>s.split(sep)[-1]\<close> for a non-empty separator: the scan goes left to right over
  non-overlapping occurrences of \<open>sep\<close>; \<open>k\<close> counts the characters of a matched
  separator still to be skipped and \<open>cur\<close> is the piece being collected.
\<close>

fun split_last_aux :: "string \<Rightarrow> nat \<Rightarrow> string \<Rightarrow> string \<Rightarrow> string" where
  "split_last_aux sep k [] cur = cur"
| "split_last_aux sep k (c # cs) cur =
     (if 0 < k then split_last_aux sep (k - 1) cs cur
      else if startswith (c # cs) sep then split_last_aux sep (length sep - 1) cs []
      else split_last_aux sep 0 cs (cur @ [c]))"

definition split_last :: "string \<Rightarrow> string \<Rightarrow> string" where
  "split_last sep s = split_last_aux sep 0 s []"

text \<open>\<^verbatim>\<open>" ".join(xs)\<close>.\<close>

fun join_space :: "string list \<Rightarrow> string" where
  "join_space [] = []"
| "join_space [x] = x"
| "join_space (x # y # ys) = x @ '' '' @ join_space (y # ys)"

text \<open>
  \<^verbatim>\<open>int(s)\<close> on a string: surrounding white space, an optional sign, then decimal
  digits in groups separated by single underscores. \<open>None\<close> stands for the
  \<^verbatim>\<open>ValueError\<close>. Only ASCII digits and white space are modelled.
\<close>

definition is_space :: "char \<Rightarrow> bool" where
  "is_space c = (c \<in> set [CHR '' '', CHR 0x09, CHR 0x0A, CHR 0x0B, CHR 0x0C, CHR 0x0D])"

definition digit_val :: "char \<Rightarrow> nat option" where
  "digit_val c =
     map_of [(CHR ''0'', 0), (CHR ''1'', 1), (CHR ''2'', 2), (CHR ''3'', 3), (CHR ''4'', 4),
             (CHR ''5'', 5), (CHR ''6'', 6), (CHR ''7'', 7), (CHR ''8'', 8), (CHR ''9'', 9)] c"

text \<open>\<open>prev\<close> tells whether the previous character was a digit.\<close>

fun digits_val :: "bool \<Rightarrow> nat \<Rightarrow> string \<Rightarrow> nat option" where
  "digits_val prev acc [] = (if prev then Some acc else None)"
| "digits_val prev acc (c # cs) =
     (if c = CHR ''_'' then (if prev then digits_val False acc cs else None)
      else case digit_val c of
             None \<Rightarrow> None
           | Some d \<Rightarrow> digits_val True (10 * acc + d) cs)"

definition py_strip :: "string \<Rightarrow> string" where
  "py_strip s = rev (dropWhile is_space (rev (dropWhile is_space s)))"

definition py_int :: "string \<Rightarrow> int option" where
  "py_int s =
     (case py_strip s of
        [] \<Rightarrow> None
      | c # cs \<Rightarrow>
          if c = CHR ''-'' then map_option (\<lambda>n. - int n) (digits_val False 0 cs)
          else if c = CHR ''+'' then map_option int (digits_val False 0 cs)
          else map_option int (digits_val False 0 (c # cs)))"

section \<open>The output tree\<close>

text \<open>
  An \<^verbatim>\<open>ET.Element\<close> has a tag, an attribute dictionary (insertion ordered) and a list
  of children. Every tag the converter creates is
  \<^verbatim>\<open>{http://www.w3.org/2001/XMLSchema}local\<close> for one of the local names below; the
  tests \<^verbatim>\<open>tag.endswith('element')\<close>, \<^verbatim>\<open>'attribute'\<close>, \<^verbatim>\<open>'complexContent'\<close>,
  \<^verbatim>\<open>'simpleType'\<close> and \<^verbatim>\<open>'restriction'\<close> each select exactly one of them.
\<close>

datatype tag =
    T_schema | T_complexType | T_complexContent | T_extension | T_choice | T_all
  | T_simpleType | T_union | T_restriction | T_element | T_attribute
  | T_enumeration | T_pattern
  | T_minExclusive | T_maxExclusive | T_minInclusive | T_maxInclusive
  | T_length | T_minLength | T_maxLength

datatype xml = Element (tag: tag) (attrib: "(string \<times> string) list") (children: "xml list")

definition ET_Element :: "tag \<Rightarrow> xml" where
  "ET_Element t = Element t [] []"

text \<open>\<^verbatim>\<open>e.set(k, v)\<close>, \<^verbatim>\<open>e.get(k)\<close> and \<^verbatim>\<open>if k in e.attrib: del e.attrib[k]\<close>.\<close>

definition set_attr :: "string \<Rightarrow> string \<Rightarrow> xml \<Rightarrow> xml" where
  "set_attr k v e = Element (tag e) (AList.update k v (attrib e)) (children e)"

definition get_attr :: "string \<Rightarrow> xml \<Rightarrow> string option" where
  "get_attr k e = map_of (attrib e) k"

definition del_attr :: "string \<Rightarrow> xml \<Rightarrow> xml" where
  "del_attr k e = Element (tag e) (AList.delete k (attrib e)) (children e)"

text \<open>\<^verbatim>\<open>e.append(c)\<close>.\<close>

definition append_child :: "xml \<Rightarrow> xml \<Rightarrow> xml" where
  "append_child c e = Element (tag e) (attrib e) (children e @ [c])"

definition append_children :: "xml list \<Rightarrow> xml \<Rightarrow> xml" where
  "append_children cs e = Element (tag e) (attrib e) (children e @ cs)"

section \<open>List walker and classifier\<close>

text \<open>
  \<^verbatim>\<open>get_rdf_list_items\<close> is a \<^verbatim>\<open>while\<close> loop that follows \<^verbatim>\<open>rdf:rest\<close>; on a cyclic
  chain it does not return, which is the value \<open>None\<close> here. A payload is collected
  only when it is truthy; the walk stops at \<^verbatim>\<open>rdf:nil\<close> or at a missing (or falsy)
  continuation.
\<close>

partial_function (option) rdf_list_walk :: "graph \<Rightarrow> node \<Rightarrow> node list \<Rightarrow> node list option" where
  "rdf_list_walk g list_node items =
     (if list_node = RDF_nil then Some items
      else case SHACL_value g list_node RDF_rest of
             None \<Rightarrow>
               Some (if is_true (SHACL_value g list_node RDF_first)
                     then items @ [the (SHACL_value g list_node RDF_first)] else items)
           | Some nxt \<Rightarrow>
               if truthy nxt
               then rdf_list_walk g nxt
                      (if is_true (SHACL_value g list_node RDF_first)
                       then items @ [the (SHACL_value g list_node RDF_first)] else items)
               else Some (if is_true (SHACL_value g list_node RDF_first)
                          then items @ [the (SHACL_value g list_node RDF_first)] else items))"

declare rdf_list_walk.simps [code]

definition get_rdf_list_items :: "graph \<Rightarrow> node \<Rightarrow> node list option" where
  "get_rdf_list_items g list_node = rdf_list_walk g list_node []"

text \<open>\<^verbatim>\<open>are_simple_type_constraints\<close>: every item has a truthy \<^verbatim>\<open>sh:datatype\<close> value.\<close>

fun are_simple_type_constraints :: "graph \<Rightarrow> node list \<Rightarrow> bool" where
  "are_simple_type_constraints g [] = True"
| "are_simple_type_constraints g (item # item_list) =
     (if \<not> is_true (SHACL_value g item (sh ''datatype'')) then False
      else are_simple_type_constraints g item_list)"

section \<open>Results of a run\<close>

text \<open>
  A call may return, raise, or not return at all. \<open>None\<close> is a run that does not
  return (or, for the functions with a recursion budget, one that exhausted it);
  \<open>Some (Inl e)\<close> is an exception that propagates to the caller: the converter has no
  \<^verbatim>\<open>try\<close> around its lowering calls.
\<close>

datatype error = ValueError | AttributeError

type_synonym 'a run = "(error + 'a) option"

definition ret :: "'a \<Rightarrow> 'a run" where
  "ret x = Some (Inr x)"

definition raise :: "error \<Rightarrow> 'a run" where
  "raise e = Some (Inl e)"

definition run_bind :: "'a run \<Rightarrow> ('a \<Rightarrow> 'b run) \<Rightarrow> 'b run" where
  "run_bind m f = (case m of None \<Rightarrow> None | Some (Inl e) \<Rightarrow> Some (Inl e) | Some (Inr x) \<Rightarrow> f x)"

section \<open>The converter object\<close>

text \<open>
  The fields of \<^verbatim>\<open>SHACLtoXSD\<close> that a conversion pass reads or writes. The graph
  \<^verbatim>\<open>self.SHACL\<close> is only read and is passed separately.
\<close>

record state =
  processed_shapes :: "node set"
  xsd_root :: "xml option"
  node_shape_map :: "node \<rightharpoonup> xml"
  property_shape_map :: "node \<rightharpoonup> xml"
  ns_prefix_map :: "(string \<times> node) list"
  xsd_nsmap :: "(string \<times> string) list"
  xsdTargetNS :: string
  use_xsd_prefix :: bool

text \<open>\<^verbatim>\<open>self.xsd_root.append(e)\<close>; on \<^verbatim>\<open>None\<close> the attribute access raises.\<close>

definition root_append :: "xml \<Rightarrow> state \<Rightarrow> state run" where
  "root_append e s =
     (case xsd_root s of
        None \<Rightarrow> raise AttributeError
      | Some r \<Rightarrow> ret (s\<lparr>xsd_root := Some (append_child e r)\<rparr>))"

section \<open>Shape names\<close>

text \<open>\<^verbatim>\<open>str(datatype).split('#')[-1]\<close>.\<close>

definition local_name :: "node \<Rightarrow> string" where
  "local_name d = split_last ''#'' (py_str d)"

text \<open>Lines 70 to 81 of \<^verbatim>\<open>get_shape_name\<close>: the name taken from the identifier.\<close>

definition uri_shape_name :: "string \<Rightarrow> string" where
  "uri_shape_name uri_str =
     (if py_in ''NodeShape/'' uri_str then split_last ''NodeShape/'' uri_str
      else if py_in ''PropertyShape/'' uri_str
      then (if startswith (split_last ''PropertyShape/'' uri_str) ''@''
            then tl (split_last ''PropertyShape/'' uri_str)
            else split_last ''PropertyShape/'' uri_str)
      else split_last ''/'' uri_str)"

definition get_shape_name :: "graph \<Rightarrow> node \<Rightarrow> string" where
  "get_shape_name g shape_uri =
     (case SHACL_value g shape_uri (sh ''name'') of
        None \<Rightarrow> uri_shape_name (py_str shape_uri)
      | Some name_literal \<Rightarrow>
          if truthy name_literal then py_str name_literal
          else uri_shape_name (py_str shape_uri))"

section \<open>Enumeration and facets\<close>

text \<open>\<^verbatim>\<open>ET.SubElement(restriction, tag)\<close> followed by \<^verbatim>\<open>set("value", str(v))\<close>.\<close>

definition facet :: "tag \<Rightarrow> node \<Rightarrow> xml" where
  "facet t v = set_attr ''value'' (py_str v) (ET_Element t)"

text \<open>A facet written under \<^verbatim>\<open>if v is not None\<close>.\<close>

fun facet_opt :: "tag \<Rightarrow> node option \<Rightarrow> xml list" where
  "facet_opt t None = []"
| "facet_opt t (Some v) = [facet t v]"

text \<open>
  \<^verbatim>\<open>process_list_constraints\<close> (\<^verbatim>\<open>sh:in\<close>). The element is returned updated; \<open>None\<close>
  is a list walk that does not return.
\<close>

definition process_list_constraints :: "graph \<Rightarrow> node \<Rightarrow> xml \<Rightarrow> xml option" where
  "process_list_constraints g shape_uri element =
     (case SHACL_objects g shape_uri (sh ''in'') of
        [] \<Rightarrow> Some element
      | in_value # other_values \<Rightarrow>
          if SHACL_objects g in_value RDF_first \<noteq> [] then
            (case get_rdf_list_items g in_value of
               None \<Rightarrow> None
             | Some vals \<Rightarrow>
                 if length vals = 1
                 then Some (del_attr ''type'' (set_attr ''fixed'' (py_str (hd vals)) element))
                 else if vals \<noteq> []
                 then Some (del_attr ''type''
                        (append_child
                          (append_child
                            (append_children (map (facet T_enumeration) vals)
                              (set_attr ''base''
                                (case SHACL_value g shape_uri (sh ''datatype'') of
                                   None \<Rightarrow> ''string''
                                 | Some datatype \<Rightarrow>
                                     if truthy datatype then local_name datatype else ''string'')
                                (ET_Element T_restriction)))
                            (ET_Element T_simpleType))
                          element))
                 else Some element)
          else if in_value = RDF_nil then Some element
          else Some (set_attr ''fixed'' (py_str in_value) element))"

text \<open>
  The facets \<^verbatim>\<open>process_facet_constraints\<close> appends to the restriction, in the order of
  its \<^verbatim>\<open>SubElement\<close> calls (lines 478 to 517). The test \<^verbatim>\<open>min_length == max_length\<close>
  of line 503 is \<^verbatim>\<open>==\<close> of two terms, which is equality of \<open>node\<close>: same class, same
  string, and for literals same datatype and same language tag up to case.
\<close>

definition length_facets :: "node option \<Rightarrow> node option \<Rightarrow> node option \<Rightarrow> xml list" where
  "length_facets min_length max_length exact_length =
     (let exact_length' =
            (if exact_length = None \<and> min_length \<noteq> None \<and> max_length \<noteq> None
                \<and> min_length = max_length
             then min_length else exact_length)
      in if exact_length' \<noteq> None then facet_opt T_length exact_length'
         else facet_opt T_minLength min_length @ facet_opt T_maxLength max_length)"

definition pattern_and_bound_facets :: "graph \<Rightarrow> node \<Rightarrow> xml list" where
  "pattern_and_bound_facets g shape_uri =
     (if is_true (SHACL_value g shape_uri (sh ''pattern''))
      then facet_opt T_pattern (SHACL_value g shape_uri (sh ''pattern'')) else [])
     @ facet_opt T_minExclusive (SHACL_value g shape_uri (sh ''minExclusive''))
     @ facet_opt T_maxExclusive (SHACL_value g shape_uri (sh ''maxExclusive''))
     @ facet_opt T_minInclusive (SHACL_value g shape_uri (sh ''minInclusive''))
     @ facet_opt T_maxInclusive (SHACL_value g shape_uri (sh ''maxInclusive''))"

definition facet_elements :: "graph \<Rightarrow> node \<Rightarrow> xml list" where
  "facet_elements g shape_uri =
     pattern_and_bound_facets g shape_uri
     @ length_facets (SHACL_value g shape_uri (sh ''minLength''))
         (SHACL_value g shape_uri (sh ''maxLength''))
         (SHACL_value g shape_uri (sh ''length''))"

text \<open>
  Lines 453 to 476: the first \<^verbatim>\<open>simpleType\<close> child of the element is used, else one is
  appended; in it the first \<^verbatim>\<open>restriction\<close> child is used, else one is appended with the
  base type, and the element loses its \<^verbatim>\<open>type\<close> attribute. The facets go to the end of
  that restriction.
\<close>

definition restriction_with :: "string \<Rightarrow> xml list \<Rightarrow> xml \<Rightarrow> xml \<times> bool" where
  "restriction_with base_type facets simple_type =
     (case List.extract (\<lambda>c. tag c = T_restriction) (children simple_type) of
        Some (before, restriction, after) \<Rightarrow>
          (Element (tag simple_type) (attrib simple_type)
             (before @ [append_children facets restriction] @ after), False)
      | None \<Rightarrow>
          (append_child
             (append_children facets (set_attr ''base'' base_type (ET_Element T_restriction)))
             simple_type, True))"

definition attach_facets :: "string \<Rightarrow> xml list \<Rightarrow> xml \<Rightarrow> xml" where
  "attach_facets base_type facets element =
     (case List.extract (\<lambda>c. tag c = T_simpleType) (children element) of
        Some (before, simple_type, after) \<Rightarrow>
          (case restriction_with base_type facets simple_type of
             (simple_type', created) \<Rightarrow>
               (if created then del_attr ''type'' else id)
                 (Element (tag element) (attrib element) (before @ [simple_type'] @ after)))
      | None \<Rightarrow>
          (case restriction_with base_type facets (ET_Element T_simpleType) of
             (simple_type', created) \<Rightarrow>
               (if created then del_attr ''type'' else id)
                 (append_child simple_type' element)))"

text \<open>
  \<^verbatim>\<open>process_facet_constraints\<close>. The flag \<^verbatim>\<open>needs_restriction\<close>, set at line 442 when a
  numeric bound is present, is never read: the early return of line 449 looks at the
  pattern and the three length bounds only.
\<close>

definition process_facet_constraints :: "graph \<Rightarrow> node \<Rightarrow> xml \<Rightarrow> xml" where
  "process_facet_constraints g shape_uri element =
     (if \<not> (is_true (SHACL_value g shape_uri (sh ''pattern''))
             \<or> SHACL_value g shape_uri (sh ''minLength'') \<noteq> None
             \<or> SHACL_value g shape_uri (sh ''maxLength'') \<noteq> None
             \<or> SHACL_value g shape_uri (sh ''length'') \<noteq> None)
      then element
      else attach_facets
             (case SHACL_value g shape_uri (sh ''datatype'') of
                None \<Rightarrow> ''decimal''
              | Some datatype \<Rightarrow> if truthy datatype then local_name datatype else ''decimal'')
             (facet_elements g shape_uri) element)"

section \<open>Property shape lowering\<close>

text \<open>The \<^verbatim>\<open>memberTypes\<close> loop of lines 194 to 199 and 298 to 303.\<close>

fun member_types :: "graph \<Rightarrow> node list \<Rightarrow> string list" where
  "member_types g [] = []"
| "member_types g (item # items) =
     (case SHACL_value g item (sh ''datatype'') of
        None \<Rightarrow> member_types g items
      | Some datatype \<Rightarrow>
          if truthy datatype then local_name datatype # member_types g items
          else member_types g items)"

definition union_element :: "graph \<Rightarrow> node list \<Rightarrow> xml" where
  "union_element g items =
     set_attr ''memberTypes'' (join_space (member_types g items)) (ET_Element T_union)"

text \<open>
  Lines 286 to 320: a property-level \<^verbatim>\<open>sh:or\<close> on an element. The result is the element
  with its inline \<^verbatim>\<open>simpleType\<close>; \<open>None\<close> is a list walk that does not return.
\<close>

definition property_or_element :: "graph \<Rightarrow> node \<Rightarrow> xml \<Rightarrow> xml option" where
  "property_or_element g or_node element =
     (case get_rdf_list_items g or_node of
        None \<Rightarrow> None
      | Some items \<Rightarrow>
          Some (del_attr ''type''
            (append_child
              (append_child
                (if are_simple_type_constraints g items then union_element g items
                 else set_attr ''base'' ''string'' (ET_Element T_restriction))
                (ET_Element T_simpleType))
              element)))"

text \<open>Lines 329 to 350: cardinality. \<^verbatim>\<open>int(min_count)\<close> may raise.\<close>

definition process_min_count :: "graph \<Rightarrow> node \<Rightarrow> bool \<Rightarrow> xml \<Rightarrow> error + xml" where
  "process_min_count g shape_uri is_attribute element =
     (case SHACL_value g shape_uri (sh ''minCount'') of
        Some min_count \<Rightarrow>
          if is_attribute then
            (case py_int (py_str min_count) of
               None \<Rightarrow> Inl ValueError
             | Some n \<Rightarrow>
                 Inr (set_attr ''use'' (if 0 < n then ''required'' else ''optional'') element))
          else if py_str min_count \<noteq> ''1''
          then Inr (set_attr ''minOccurs'' (py_str min_count) element)
          else Inr element
      | None \<Rightarrow>
          if is_attribute then Inr (set_attr ''use'' ''optional'' element) else Inr element)"

definition process_max_count :: "graph \<Rightarrow> node \<Rightarrow> bool \<Rightarrow> xml \<Rightarrow> xml" where
  "process_max_count g shape_uri is_attribute element =
     (case SHACL_value g shape_uri (sh ''maxCount'') of
        Some max_count \<Rightarrow>
          if \<not> is_attribute \<and> py_str max_count \<noteq> ''1''
          then set_attr ''maxOccurs'' (py_str max_count) element
          else element
      | None \<Rightarrow> element)"

text \<open>Lines 322 to 356: datatype, cardinality, enumeration, facets.\<close>

definition property_plain_element :: "graph \<Rightarrow> node \<Rightarrow> bool \<Rightarrow> xml \<Rightarrow> xml run" where
  "property_plain_element g shape_uri is_attribute element =
     (case process_min_count g shape_uri is_attribute
             (case SHACL_value g shape_uri (sh ''datatype'') of
                None \<Rightarrow> element
              | Some datatype \<Rightarrow>
                  if truthy datatype then set_attr ''type'' (local_name datatype) element
                  else element) of
        Inl e \<Rightarrow> raise e
      | Inr element1 \<Rightarrow>
          (case process_list_constraints g shape_uri
                  (process_max_count g shape_uri is_attribute element1) of
             None \<Rightarrow> None
           | Some element2 \<Rightarrow> ret (process_facet_constraints g shape_uri element2)))"

definition is_attribute_shape :: "graph \<Rightarrow> node \<Rightarrow> bool" where
  "is_attribute_shape g shape_uri =
     (CHR ''@'' \<in> set (py_str shape_uri) \<or> startswith (get_shape_name g shape_uri) ''@'')"

definition new_property_element :: "graph \<Rightarrow> node \<Rightarrow> xml" where
  "new_property_element g shape_uri =
     set_attr ''name''
       (if is_attribute_shape g shape_uri \<and> startswith (get_shape_name g shape_uri) ''@''
        then tl (get_shape_name g shape_uri) else get_shape_name g shape_uri)
       (ET_Element (if is_attribute_shape g shape_uri then T_attribute else T_element))"

definition remember_property :: "node \<Rightarrow> xml \<Rightarrow> state \<Rightarrow> (xml option \<times> state) run" where
  "remember_property shape_uri element s =
     ret (Some element, s\<lparr>property_shape_map := (property_shape_map s)(shape_uri \<mapsto> element)\<rparr>)"

definition process_property_shape :: "graph \<Rightarrow> node \<Rightarrow> state \<Rightarrow> (xml option \<times> state) run" where
  "process_property_shape g shape_uri s =
     (if shape_uri \<in> processed_shapes s then ret (property_shape_map s shape_uri, s)
      else if \<not> is_true (SHACL_value g shape_uri (sh ''path''))
      then ret (None, s\<lparr>processed_shapes := insert shape_uri (processed_shapes s)\<rparr>)
      else if SHACL_objects g shape_uri (sh ''or'') \<noteq> [] \<and> \<not> is_attribute_shape g shape_uri
      then
        (case property_or_element g (hd (SHACL_objects g shape_uri (sh ''or'')))
                (new_property_element g shape_uri) of
           None \<Rightarrow> None
         | Some element \<Rightarrow>
             remember_property shape_uri element
               (s\<lparr>processed_shapes := insert shape_uri (processed_shapes s)\<rparr>))
      else
        run_bind
          (property_plain_element g shape_uri (is_attribute_shape g shape_uri)
             (new_property_element g shape_uri))
          (\<lambda>element.
             remember_property shape_uri element
               (s\<lparr>processed_shapes := insert shape_uri (processed_shapes s)\<rparr>)))"

section \<open>Node shape lowering\<close>

text \<open>
  While a complex type is built, \<^verbatim>\<open>container\<close> refers to the type itself, to its
  \<^verbatim>\<open>extension\<close> (the only child of its first child \<^verbatim>\<open>complexContent\<close>) or to an
  \<^verbatim>\<open>all\<close> group inside one of these. A reference into the tree under construction is a
  path of child indices; the paths used are those of children created before.
\<close>

fun get_at :: "nat list \<Rightarrow> xml \<Rightarrow> xml" where
  "get_at [] e = e"
| "get_at (i # p) e = get_at p (children e ! i)"

fun put_at :: "nat list \<Rightarrow> xml \<Rightarrow> xml \<Rightarrow> xml" where
  "put_at [] new e = new"
| "put_at (i # p) new e =
     Element (tag e) (attrib e) ((children e)[i := put_at p new (children e ! i)])"

definition append_at :: "nat list \<Rightarrow> xml \<Rightarrow> xml \<Rightarrow> xml" where
  "append_at p c e = put_at p (append_child c (get_at p e)) e"

text \<open>\<^verbatim>\<open>container = extension if extension is not None else complex_type\<close>.\<close>

fun container_of :: "string option \<Rightarrow> nat list" where
  "container_of None = []"
| "container_of (Some base) = [0, 0]"

text \<open>The loop of lines 141 to 147.\<close>

fun process_properties ::
  "graph \<Rightarrow> node list \<Rightarrow> nat list \<Rightarrow> xml \<Rightarrow> state \<Rightarrow> (xml \<times> state) run" where
  "process_properties g [] container complex_type s = ret (complex_type, s)"
| "process_properties g (prop # props) container complex_type s =
     run_bind (process_property_shape g prop s)
       (\<lambda>(prop_elem, s').
          process_properties g props container
            (case prop_elem of
               None \<Rightarrow> complex_type
             | Some e \<Rightarrow>
                 if tag e = T_element then append_at container e complex_type
                 else if tag e = T_attribute then append_child e complex_type
                 else complex_type)
            s')"

text \<open>
  Lines 156 to 170: the top-level element of a target class. \<open>extension\<close> is the
  \<^verbatim>\<open>base\<close> attribute of the extension element, or \<open>None\<close> when there is none.
\<close>

definition target_element :: "graph \<Rightarrow> node \<Rightarrow> string option \<Rightarrow> xml \<Rightarrow> xml" where
  "target_element g shape_uri extension complex_type =
     (case extension of
        Some base_type_name \<Rightarrow>
          if list_all (\<lambda>child. tag child = T_complexContent) (children complex_type)
             \<and> SHACL_objects g shape_uri (sh ''property'') = []
          then set_attr ''type'' base_type_name
                 (set_attr ''name'' (get_shape_name g shape_uri) (ET_Element T_element))
          else set_attr ''type'' (get_shape_name g shape_uri)
                 (set_attr ''name'' (get_shape_name g shape_uri) (ET_Element T_element))
      | None \<Rightarrow>
          set_attr ''type'' (get_shape_name g shape_uri)
            (set_attr ''name'' (get_shape_name g shape_uri) (ET_Element T_element)))"

fun emit_target_elements :: "xml \<Rightarrow> node list \<Rightarrow> state \<Rightarrow> state run" where
  "emit_target_elements element [] s = ret s"
| "emit_target_elements element (target_class # target_classes) s =
     run_bind (root_append element s) (emit_target_elements element target_classes)"

text \<open>Lines 149 to 174: remember the type, emit the target elements, append the type.\<close>

definition emit_node_shape ::
  "graph \<Rightarrow> node \<Rightarrow> string option \<Rightarrow> xml \<Rightarrow> state \<Rightarrow> (xml option \<times> state) run" where
  "emit_node_shape g shape_uri extension complex_type s =
     run_bind
       (emit_target_elements (target_element g shape_uri extension complex_type)
          (SHACL_objects g shape_uri (sh ''targetClass''))
          (s\<lparr>node_shape_map := (node_shape_map s)(shape_uri \<mapsto> complex_type)\<rparr>))
       (\<lambda>s'. run_bind (root_append complex_type s') (\<lambda>s''. ret (Some complex_type, s'')))"

text \<open>Lines 127 to 147: the properties, in an \<^verbatim>\<open>all\<close> group unless a choice is used.\<close>

definition lower_properties ::
  "graph \<Rightarrow> node \<Rightarrow> string option \<Rightarrow> xml \<Rightarrow> state \<Rightarrow> (xml \<times> state) run" where
  "lower_properties g shape_uri extension complex_type s =
     (if SHACL_objects g shape_uri (sh ''property'') = [] then ret (complex_type, s)
      else if SHACL_objects g shape_uri (sh ''xone'') = []
              \<and> SHACL_objects g shape_uri (sh ''or'') = []
      then process_properties g (SHACL_objects g shape_uri (sh ''property''))
             (container_of extension
                @ [length (children (get_at (container_of extension) complex_type))])
             (append_at (container_of extension) (ET_Element T_all) complex_type) s
      else process_properties g (SHACL_objects g shape_uri (sh ''property''))
             (container_of extension) complex_type s)"

text \<open>Lines 96 to 112: the new complex type, with its extension when the base was lowered.\<close>

definition new_complex_type :: "graph \<Rightarrow> node \<Rightarrow> string option \<Rightarrow> xml" where
  "new_complex_type g shape_uri extension =
     (case extension of
        None \<Rightarrow> set_attr ''name'' (get_shape_name g shape_uri) (ET_Element T_complexType)
      | Some base \<Rightarrow>
          append_child
            (append_child (set_attr ''base'' base (ET_Element T_extension))
               (ET_Element T_complexContent))
            (set_attr ''name'' (get_shape_name g shape_uri) (ET_Element T_complexType)))"

text \<open>
  \<^verbatim>\<open>process_node_shape\<close>, \<^verbatim>\<open>process_choice_constraint\<close> and \<^verbatim>\<open>process_rdf_list\<close>
  call each other. The bodies are written first over \<open>lower\<close>, the function that the
  inner calls of \<^verbatim>\<open>process_node_shape\<close> stand for; the recursion is then closed over
  the nesting depth of such calls. \<^verbatim>\<open>ET.SubElement(parent, choice)\<close> followed by filling
  the choice is written as filling a new choice and appending it: nothing else is
  appended to the parent in between.
\<close>

type_synonym lowering = "node \<Rightarrow> state \<Rightarrow> (xml option \<times> state) run"

text \<open>The loop of lines 236 to 251.\<close>

fun rdf_list_items_body ::
  "lowering \<Rightarrow> graph \<Rightarrow> node list \<Rightarrow> xml \<Rightarrow> state \<Rightarrow> (xml \<times> state) run" where
  "rdf_list_items_body lower g [] parent_element s = ret (parent_element, s)"
| "rdf_list_items_body lower g (item # items) parent_element s =
     (if SHACL_contains g (item, RDF_type, sh ''PropertyShape'') then
        run_bind (process_property_shape g item s)
          (\<lambda>(prop_elem, s').
             rdf_list_items_body lower g items
               (case prop_elem of
                  None \<Rightarrow> parent_element
                | Some e \<Rightarrow> append_child e parent_element)
               s')
      else
        run_bind (lower item s)
          (\<lambda>(node_elem, s').
             rdf_list_items_body lower g items
               (case node_elem of
                  None \<Rightarrow> parent_element
                | Some e \<Rightarrow>
                    append_child
                      (set_attr ''ref'' (get_shape_name g item) (ET_Element T_element))
                      parent_element)
               s'))"

definition rdf_list_body ::
  "lowering \<Rightarrow> graph \<Rightarrow> node \<Rightarrow> xml \<Rightarrow> state \<Rightarrow> (xml \<times> state) run" where
  "rdf_list_body lower g list_node parent_element s =
     (case get_rdf_list_items g list_node of
        None \<Rightarrow> None
      | Some items \<Rightarrow> rdf_list_items_body lower g items parent_element s)"

definition choice_constraint_body ::
  "lowering \<Rightarrow> graph \<Rightarrow> node \<Rightarrow> xml \<Rightarrow> bool \<Rightarrow> state \<Rightarrow> (xml \<times> state) run" where
  "choice_constraint_body lower g list_node parent_element is_xone s =
     (if is_xone then
        run_bind (rdf_list_body lower g list_node (ET_Element T_choice) s)
          (\<lambda>(choice, s'). ret (append_child choice parent_element, s'))
      else
        (case get_rdf_list_items g list_node of
           None \<Rightarrow> None
         | Some items \<Rightarrow>
             if are_simple_type_constraints g items
             then ret (append_child
                         (append_child (union_element g items) (ET_Element T_simpleType))
                         parent_element, s)
             else
               run_bind (rdf_list_body lower g list_node (ET_Element T_choice) s)
                 (\<lambda>(choice, s'). ret (append_child choice parent_element, s'))))"

text \<open>Lines 101 to 112: the base shape; the result is the extension's base name.\<close>

definition lower_base :: "lowering \<Rightarrow> graph \<Rightarrow> node \<Rightarrow> state \<Rightarrow> (string option \<times> state) run" where
  "lower_base lower g shape_uri s =
     (case SHACL_objects g shape_uri (sh ''node'') of
        [] \<Rightarrow> ret (None, s)
      | base_shape_uri # other_values \<Rightarrow>
          run_bind (lower base_shape_uri s)
            (\<lambda>(base_complex_type, s1).
               ret (if base_complex_type \<noteq> None
                    then Some (get_shape_name g base_shape_uri) else None, s1)))"

text \<open>Lines 114 to 125: \<^verbatim>\<open>sh:xone\<close> (\<open>is_xone\<close>) or \<^verbatim>\<open>sh:or\<close> into the container.\<close>

definition lower_choice ::
  "lowering \<Rightarrow> graph \<Rightarrow> node \<Rightarrow> bool \<Rightarrow> string option \<Rightarrow> xml \<Rightarrow> state \<Rightarrow> (xml \<times> state) run" where
  "lower_choice lower g shape_uri is_xone extension complex_type s =
     (case SHACL_objects g shape_uri (sh (if is_xone then ''xone'' else ''or'')) of
        [] \<Rightarrow> ret (complex_type, s)
      | list_node # other_values \<Rightarrow>
          run_bind
            (choice_constraint_body lower g list_node
               (get_at (container_of extension) complex_type) is_xone s)
            (\<lambda>(container, s').
               ret (put_at (container_of extension) container complex_type, s')))"

definition node_shape_body :: "lowering \<Rightarrow> graph \<Rightarrow> node \<Rightarrow> state \<Rightarrow> (xml option \<times> state) run" where
  "node_shape_body lower g shape_uri s =
     (if shape_uri \<in> processed_shapes s then ret (node_shape_map s shape_uri, s)
      else
        run_bind
          (lower_base lower g shape_uri
             (s\<lparr>processed_shapes := insert shape_uri (processed_shapes s)\<rparr>))
          (\<lambda>(extension, s1).
             run_bind
               (lower_choice lower g shape_uri True extension
                  (new_complex_type g shape_uri extension) s1)
               (\<lambda>(complex_type, s2).
                  run_bind (lower_choice lower g shape_uri False extension complex_type s2)
                    (\<lambda>(complex_type, s3).
                       run_bind (lower_properties g shape_uri extension complex_type s3)
                         (\<lambda>(complex_type, s4).
                            emit_node_shape g shape_uri extension complex_type s4)))))"

text \<open>
  The first argument bounds the nesting depth of \<^verbatim>\<open>process_node_shape\<close> calls; a call
  that needs more gives \<open>None\<close>.
\<close>

primrec process_node_shape :: "nat \<Rightarrow> graph \<Rightarrow> lowering" where
  "process_node_shape 0 g = (\<lambda>shape_uri s. None)"
| "process_node_shape (Suc fuel) g = node_shape_body (process_node_shape fuel g) g"

definition process_choice_constraint ::
  "nat \<Rightarrow> graph \<Rightarrow> node \<Rightarrow> xml \<Rightarrow> bool \<Rightarrow> state \<Rightarrow> (xml \<times> state) run" where
  "process_choice_constraint fuel g = choice_constraint_body (process_node_shape fuel g) g"

definition process_rdf_list ::
  "nat \<Rightarrow> graph \<Rightarrow> node \<Rightarrow> xml \<Rightarrow> state \<Rightarrow> (xml \<times> state) run" where
  "process_rdf_list fuel g = rdf_list_body (process_node_shape fuel g) g"

section \<open>The conversion pass\<close>

text \<open>
  \<^verbatim>\<open>ET.register_namespace\<close> raises \<^verbatim>\<open>ValueError\<close> for a prefix that matches
  \<^verbatim>\<open>ns\d+$\<close>; its registry serves the serializer only and is not modelled.
\<close>

definition reserved_prefix :: "string \<Rightarrow> bool" where
  "reserved_prefix p =
     (startswith p ''ns'' \<and> drop 2 p \<noteq> [] \<and> list_all (\<lambda>c. digit_val c \<noteq> None) (drop 2 p))"

text \<open>
  \<^verbatim>\<open>create_xsd_root\<close>. The values of \<^verbatim>\<open>ns_prefix_map\<close> are rdflib terms, which never
  equal a plain string: the test of line 46 is false, and the prefix is \<^verbatim>\<open>xs\<close>.
\<close>

fun set_nsmap :: "(string \<times> string) list \<Rightarrow> xml \<Rightarrow> xml" where
  "set_nsmap [] root = root"
| "set_nsmap ((prefix, uri) # m) root =
     set_nsmap m
       (if prefix \<noteq> ''xs'' \<and> prefix \<noteq> ''xsd'' then set_attr (''xmlns:'' @ prefix) uri root
        else root)"

definition create_xsd_root :: "state \<Rightarrow> state run" where
  "create_xsd_root s =
     (if list_ex (\<lambda>(prefix, uri). reserved_prefix prefix) (ns_prefix_map s)
      then raise ValueError
      else ret (s\<lparr>use_xsd_prefix := False,
                  xsd_root := Some
                    (set_attr ''attributeFormDefault'' ''unqualified''
                      (set_attr ''elementFormDefault'' ''qualified''
                        (set_attr ''targetNamespace'' (xsdTargetNS s)
                          (set_nsmap (xsd_nsmap s)
                            (set_attr ''xmlns:xs'' ''http://www.w3.org/2001/XMLSchema''
                              (ET_Element T_schema))))))\<rparr>))"

text \<open>The loop of lines 534 and 535.\<close>

fun process_node_shapes :: "nat \<Rightarrow> graph \<Rightarrow> node list \<Rightarrow> state \<Rightarrow> state run" where
  "process_node_shapes fuel g [] s = ret s"
| "process_node_shapes fuel g (node_shape # node_shapes) s =
     run_bind (process_node_shape fuel g node_shape s)
       (\<lambda>(complex_type, s'). process_node_shapes fuel g node_shapes s')"

text \<open>The loop of lines 542 to 547.\<close>

fun process_standalone :: "graph \<Rightarrow> node list \<Rightarrow> state \<Rightarrow> state run" where
  "process_standalone g [] s = ret s"
| "process_standalone g (property_shape # property_shapes) s =
     run_bind (process_property_shape g property_shape s)
       (\<lambda>(property_element, s').
          case property_element of
            None \<Rightarrow> process_standalone g property_shapes s'
          | Some e \<Rightarrow>
              if tag e = T_element
              then run_bind (root_append e s') (process_standalone g property_shapes)
              else process_standalone g property_shapes s')"

definition convert :: "nat \<Rightarrow> graph \<Rightarrow> state \<Rightarrow> state run" where
  "convert fuel g s =
     run_bind (create_xsd_root s)
       (\<lambda>s0. run_bind
          (process_node_shapes fuel g (SHACL_subjects g RDF_type (sh ''NodeShape'')) s0)
          (\<lambda>s1. process_standalone g
             (filter (\<lambda>ps. ps \<notin> processed_shapes s1)
                (SHACL_subjects g RDF_type (sh ''PropertyShape'')))
             s1))"

text \<open>The fields of a new \<^verbatim>\<open>SHACLtoXSD()\<close> (lines 14 to 32).\<close>

definition init_state :: state where
  "init_state =
     \<lparr>processed_shapes = {}, xsd_root = None, node_shape_map = Map.empty,
      property_shape_map = Map.empty, ns_prefix_map = [],
      xsd_nsmap = [(''xs'', ''http://www.w3.org/2001/XMLSchema''), (''tns'', ''http://example.com/'')],
      xsdTargetNS = ''http://example.com/'', use_xsd_prefix = False\<rparr>"

section \<open>Observations and example graphs\<close>

text \<open>The value a call returned, when it returned.\<close>

definition returned :: "('a \<times> state) run \<Rightarrow> 'a option" where
  "returned m = (case m of Some (Inr (r, s)) \<Rightarrow> Some r | _ \<Rightarrow> None)"

text \<open>The children of the document root.\<close>

definition root_children :: "state \<Rightarrow> xml list" where
  "root_children s = (case xsd_root s of None \<Rightarrow> [] | Some r \<Rightarrow> children r)"

text \<open>
  The facets of an element's inline restriction: the children of the first
  \<^verbatim>\<open>restriction\<close> of its first \<^verbatim>\<open>simpleType\<close> child (none when there is no such child).
\<close>

definition first_restriction_children :: "xml \<Rightarrow> xml list" where
  "first_restriction_children simple_type =
     (case find (\<lambda>c. tag c = T_restriction) (children simple_type) of
        None \<Rightarrow> [] | Some restriction \<Rightarrow> children restriction)"

definition restriction_facets :: "xml \<Rightarrow> xml list" where
  "restriction_facets e =
     (case find (\<lambda>c. tag c = T_simpleType) (children e) of
        None \<Rightarrow> []
      | Some simple_type \<Rightarrow> first_restriction_children simple_type)"

definition xsd :: "string \<Rightarrow> node" where
  "xsd local = URIRef (''http://www.w3.org/2001/XMLSchema#'' @ local)"

text \<open>An \<^verbatim>\<open>xsd:integer\<close> literal; \<open>t\<close> is false exactly for the number zero.\<close>

definition int_lit :: "string \<Rightarrow> bool \<Rightarrow> node" where
  "int_lit l t = typed_literal l ''http://www.w3.org/2001/XMLSchema#integer'' t"

definition ex :: "string \<Rightarrow> node" where
  "ex local = URIRef (''http://example.com/'' @ local)"

text \<open>A property shape whose only facet constraints are numeric bounds.\<close>

definition g_bounds :: graph where
  "g_bounds =
     [(ex ''PropertyShape/age'', RDF_type, sh ''PropertyShape''),
      (ex ''PropertyShape/age'', sh ''path'', ex ''age''),
      (ex ''PropertyShape/age'', sh ''datatype'', xsd ''integer''),
      (ex ''PropertyShape/age'', sh ''minInclusive'', int_lit ''1'' True),
      (ex ''PropertyShape/age'', sh ''maxInclusive'', int_lit ''120'' True)]"

text \<open>A property shape with \<^verbatim>\<open>sh:in (0 1)\<close>.\<close>

definition g_enum01 :: graph where
  "g_enum01 =
     [(ex ''PropertyShape/level'', RDF_type, sh ''PropertyShape''),
      (ex ''PropertyShape/level'', sh ''path'', ex ''level''),
      (ex ''PropertyShape/level'', sh ''datatype'', xsd ''integer''),
      (ex ''PropertyShape/level'', sh ''in'', BNode ''l1''),
      (BNode ''l1'', RDF_first, int_lit ''0'' False),
      (BNode ''l1'', RDF_rest, BNode ''l2''),
      (BNode ''l2'', RDF_first, int_lit ''1'' True),
      (BNode ''l2'', RDF_rest, RDF_nil)]"

text \<open>A property shape with \<^verbatim>\<open>sh:minLength 5\<close> and \<^verbatim>\<open>sh:maxLength 5\<close>.\<close>

definition g_len5 :: graph where
  "g_len5 =
     [(ex ''PropertyShape/code'', RDF_type, sh ''PropertyShape''),
      (ex ''PropertyShape/code'', sh ''path'', ex ''code''),
      (ex ''PropertyShape/code'', sh ''datatype'', xsd ''string''),
      (ex ''PropertyShape/code'', sh ''minLength'', int_lit ''5'' True),
      (ex ''PropertyShape/code'', sh ''maxLength'', int_lit ''5'' True)]"

text \<open>
  The same with language-tagged values whose tags differ in case only:
  \<^verbatim>\<open>sh:minLength "5"@en\<close> and \<^verbatim>\<open>sh:maxLength "5"@EN\<close>.
\<close>

definition g_len5_lang :: graph where
  "g_len5_lang =
     [(ex ''PropertyShape/code'', RDF_type, sh ''PropertyShape''),
      (ex ''PropertyShape/code'', sh ''path'', ex ''code''),
      (ex ''PropertyShape/code'', sh ''datatype'', xsd ''string''),
      (ex ''PropertyShape/code'', sh ''minLength'', lang_literal ''5'' ''en'' True),
      (ex ''PropertyShape/code'', sh ''maxLength'', lang_literal ''5'' ''EN'' True)]"

text \<open>A property shape with constraints but no \<^verbatim>\<open>sh:path\<close>.\<close>

definition g_nopath :: graph where
  "g_nopath =
     [(ex ''PropertyShape/x'', RDF_type, sh ''PropertyShape''),
      (ex ''PropertyShape/x'', sh ''datatype'', xsd ''string''),
      (ex ''PropertyShape/x'', sh ''minCount'', int_lit ''1'' True),
      (ex ''PropertyShape/x'', sh ''pattern'', plain_literal ''[a-z]+'' True),
      (ex ''NodeShape/N'', RDF_type, sh ''NodeShape''),
      (ex ''NodeShape/N'', sh ''property'', ex ''PropertyShape/x'')]"

text \<open>Node shapes with a disjunction: an empty list, and two datatype branches.\<close>

definition g_or_empty :: graph where
  "g_or_empty =
     [(ex ''NodeShape/N'', RDF_type, sh ''NodeShape''),
      (ex ''NodeShape/N'', sh ''or'', RDF_nil)]"


text \<open>A later state keeps the shapes already entered, their registered types and the
  root children already appended.\<close>

definition extends :: "state \<Rightarrow> state \<Rightarrow> bool" where
  "extends s s' \<longleftrightarrow>
     processed_shapes s \<subseteq> processed_shapes s'
     \<and> (\<forall>x \<in> processed_shapes s. node_shape_map s' x = node_shape_map s x)
     \<and> (\<exists>new. root_children s' = root_children s @ new)
     \<and> (xsd_root s \<noteq> None \<longrightarrow> xsd_root s' \<noteq> None)"

text \<open>A lowering is sound when every returning call extends the state.\<close>

definition sound :: "lowering \<Rightarrow> bool" where
  "sound lower \<longleftrightarrow> (\<forall>x s r s'. lower x s = ret (r, s') \<longrightarrow> extends s s')"

text \<open>States reachable from a state by the steps of a conversion pass.\<close>

inductive later :: "graph \<Rightarrow> state \<Rightarrow> state \<Rightarrow> bool" for g where
  later_refl: "later g s s"
| later_enter:
    "later g s s' \<Longrightarrow> later g s (s'\<lparr>processed_shapes := insert x (processed_shapes s')\<rparr>)"
| later_node:
    "later g s s' \<Longrightarrow> process_node_shape fuel g x s' = ret (r, s'') \<Longrightarrow> later g s s''"
| later_property:
    "later g s s' \<Longrightarrow> process_property_shape g x s' = ret (r, s'') \<Longrightarrow> later g s s''"
| later_append:
    "later g s s' \<Longrightarrow> root_append e s' = ret s'' \<Longrightarrow> later g s s''"

text \<open>The name of the base shape when the lowering of the first sh:node value returned
  a complex type, as the extension branch of the node shape lowering computes it.\<close>

definition base_lowered :: "nat \<Rightarrow> graph \<Rightarrow> node \<Rightarrow> state \<Rightarrow> string option" where
  "base_lowered fuel g shape_uri s =
     (case SHACL_objects g shape_uri (sh ''node'') of
        [] \<Rightarrow> None
      | base_shape_uri # other_values \<Rightarrow>
          (case returned (process_node_shape fuel g base_shape_uri
                            (s\<lparr>processed_shapes := insert shape_uri (processed_shapes s)\<rparr>)) of
             Some (Some base_complex_type) \<Rightarrow> Some (get_shape_name g base_shape_uri)
           | _ \<Rightarrow> None))"

text \<open>The converter after the root has been created and before any shape is lowered.\<close>

definition pass_start :: state where
  "pass_start = init_state\<lparr>xsd_root := Some (ET_Element T_schema)\<rparr>"

text \<open>A node shape that names itself as its base.\<close>

definition g_self :: graph where
  "g_self =
     [(ex ''NodeShape/A'', RDF_type, sh ''NodeShape''),
      (ex ''NodeShape/A'', sh ''node'', ex ''NodeShape/A'')]"

text \<open>A shape with a base and an exclusive choice, and no property of its own.\<close>

definition g_ext_choice :: graph where
  "g_ext_choice =
     [(ex ''NodeShape/B'', RDF_type, sh ''NodeShape''),
      (ex ''NodeShape/A'', RDF_type, sh ''NodeShape''),
      (ex ''NodeShape/A'', sh ''node'', ex ''NodeShape/B''),
      (ex ''NodeShape/A'', sh ''xone'', BNode ''x1''),
      (ex ''NodeShape/A'', sh ''targetClass'', ex ''A''),
      (BNode ''x1'', RDF_first, ex ''PropertyShape/p''),
      (BNode ''x1'', RDF_rest, RDF_nil),
      (ex ''PropertyShape/p'', RDF_type, sh ''PropertyShape''),
      (ex ''PropertyShape/p'', sh ''path'', ex ''p''),
      (ex ''PropertyShape/p'', sh ''datatype'', xsd ''string'')]"

text \<open>A shape with a base and no constraint of its own.\<close>

definition g_ext :: graph where
  "g_ext =
     [(ex ''NodeShape/B'', RDF_type, sh ''NodeShape''),
      (ex ''NodeShape/A'', RDF_type, sh ''NodeShape''),
      (ex ''NodeShape/A'', sh ''node'', ex ''NodeShape/B''),
      (ex ''NodeShape/A'', sh ''targetClass'', ex ''A'')]"

text \<open>Two targeted node shapes and a property shape that no node shape refers to.\<close>

definition g_two :: graph where
  "g_two =
     [(ex ''NodeShape/A'', RDF_type, sh ''NodeShape''),
      (ex ''NodeShape/A'', sh ''targetClass'', ex ''A''),
      (ex ''NodeShape/B'', RDF_type, sh ''NodeShape''),
      (ex ''NodeShape/B'', sh ''targetClass'', ex ''B''),
      (ex ''PropertyShape/q'', RDF_type, sh ''PropertyShape''),
      (ex ''PropertyShape/q'', sh ''path'', ex ''q'')]"

text \<open>What a first lowering appends to the root.\<close>

definition target_type :: "graph \<Rightarrow> node \<Rightarrow> string option \<Rightarrow> string" where
  "target_type g shape_uri extension =
     (case extension of
        Some base_name \<Rightarrow>
          if SHACL_objects g shape_uri (sh ''property'') = []
          then base_name else get_shape_name g shape_uri
      | None \<Rightarrow> get_shape_name g shape_uri)"

text \<open>The root children after a call that returned, for a lowering and for a pass.\<close>

definition returned_root :: "('a \<times> state) run \<Rightarrow> xml list" where
  "returned_root m = (case m of Some (Inr (r, s)) \<Rightarrow> root_children s | _ \<Rightarrow> [])"

definition final_root :: "state run \<Rightarrow> xml list" where
  "final_root m = (case m of Some (Inr s) \<Rightarrow> root_children s | _ \<Rightarrow> [])"

text \<open>All element children come before every other child.\<close>

definition elements_first :: "xml list \<Rightarrow> bool" where
  "elements_first cs =
     list_all (\<lambda>c. tag c \<noteq> T_element) (dropWhile (\<lambda>c. tag c = T_element) cs)"

text \<open>The subjects of a graph, which bound the shapes a pass can enter.\<close>

definition graph_subjects :: "graph \<Rightarrow> node set" where
  "graph_subjects g = set (map fst g)"

text \<open>Every list walk of the graph returns.\<close>

definition walks_return :: "graph \<Rightarrow> bool" where
  "walks_return g \<longleftrightarrow> (\<forall>list_node. get_rdf_list_items g list_node \<noteq> None)"

text \<open>A run terminates when it returns or raises.\<close>

definition terminates :: "'a run \<Rightarrow> bool" where
  "terminates m \<longleftrightarrow> m \<noteq> None"

text \<open>A lowering terminates on every state that leaves fewer than n subjects unentered.\<close>

definition returns_below :: "lowering \<Rightarrow> graph \<Rightarrow> nat \<Rightarrow> bool" where
  "returns_below lower g n \<longleftrightarrow>
     (\<forall>x s. card (graph_subjects g - processed_shapes s) < n \<longrightarrow> terminates (lower x s))"

text \<open>Two shapes that extend each other, one of them also inside the other's choice.\<close>

definition g_cycle :: graph where
  "g_cycle =
     [(ex ''NodeShape/A'', RDF_type, sh ''NodeShape''),
      (ex ''NodeShape/A'', sh ''node'', ex ''NodeShape/B''),
      (ex ''NodeShape/A'', sh ''xone'', BNode ''x1''),
      (ex ''NodeShape/B'', RDF_type, sh ''NodeShape''),
      (ex ''NodeShape/B'', sh ''node'', ex ''NodeShape/A''),
      (BNode ''x1'', RDF_first, ex ''NodeShape/B''),
      (BNode ''x1'', RDF_rest, RDF_nil)]"

text \<open>A disjunction whose list cell is its own rest.\<close>

definition g_loop :: graph where
  "g_loop =
     [(ex ''NodeShape/N'', RDF_type, sh ''NodeShape''),
      (ex ''NodeShape/N'', sh ''or'', BNode ''c''),
      (BNode ''c'', RDF_first, ex ''NodeShape/M''),
      (BNode ''c'', RDF_rest, BNode ''c'')]"

text \<open>Two node shapes that extend each other.\<close>

definition g_two_cycle :: graph where
  "g_two_cycle =
     [(ex ''NodeShape/A'', RDF_type, sh ''NodeShape''),
      (ex ''NodeShape/A'', sh ''node'', ex ''NodeShape/B''),
      (ex ''NodeShape/B'', RDF_type, sh ''NodeShape''),
      (ex ''NodeShape/B'', sh ''node'', ex ''NodeShape/A''),
      (ex ''NodeShape/B'', sh ''targetClass'', ex ''B'')]"






section \<open>Basic facts\<close>

text \<open>Language-tagged literals are equal when their tags agree up to case.\<close>

lemma lang_literal_eq:
  "lang_literal l a t = lang_literal l' b t' \<longleftrightarrow> l = l' \<and> py_lower a = py_lower b \<and> t = t'"
  by (auto simp: lang_literal_def)

lemma lang_literal_case: "lang_literal ''5'' ''en'' True = lang_literal ''5'' ''EN'' True"
  by code_simp

lemma run_bind_ret [simp]: "run_bind (ret x) f = f x"
  by (simp add: run_bind_def ret_def)

lemma run_bind_raise [simp]: "run_bind (raise e) f = raise e"
  by (simp add: run_bind_def raise_def)

lemma run_bind_None [simp]: "run_bind None f = None"
  by (simp add: run_bind_def)

lemma ret_neq [simp]: "ret x \<noteq> None" "ret x \<noteq> raise e" "raise e \<noteq> None" "None \<noteq> ret x" "raise e \<noteq> ret x"
  by (simp_all add: ret_def raise_def)

lemma ret_inj [simp]: "ret x = ret y \<longleftrightarrow> x = y"
  by (simp add: ret_def)

lemma run_bind_eq_ret: "run_bind m f = ret y \<longleftrightarrow> (\<exists>x. m = ret x \<and> f x = ret y)"
  by (auto simp: run_bind_def ret_def split: option.splits sum.splits)

lemma find_extract_None: "List.extract P xs = None \<Longrightarrow> find P xs = None"
  by (simp add: extract_None_iff find_None_iff)

lemma find_append_first: "\<forall>x\<in>set ys. \<not> P x \<Longrightarrow> P y \<Longrightarrow> find P (ys @ y # zs) = Some y"
  by (induction ys) auto

lemma find_append_new: "find P xs = None \<Longrightarrow> P y \<Longrightarrow> find P (xs @ [y]) = Some y"
  by (induction xs) (auto split: if_splits)

lemma find_extract_Some:
  "List.extract P xs = Some (ys, y, zs) \<Longrightarrow> find P xs = Some y \<and> (\<forall>x\<in>set ys. \<not> P x) \<and> P y"
  by (auto simp: extract_Some_iff find_append_first)

lemma tag_restriction_with [simp]:
  "tag (fst (restriction_with base_type facets simple_type)) = tag simple_type"
  by (simp add: restriction_with_def append_child_def split: option.splits prod.splits)

lemma restriction_with_children:
  "first_restriction_children (fst (restriction_with base_type facets simple_type))
     = first_restriction_children simple_type @ facets"
proof (cases "List.extract (\<lambda>c. tag c = T_restriction) (children simple_type)")
  case None
  then have "find (\<lambda>c. tag c = T_restriction) (children simple_type) = None"
    by (rule find_extract_None)
  then show ?thesis using None
    by (simp add: first_restriction_children_def restriction_with_def ET_Element_def
        append_child_def append_children_def set_attr_def find_append_new)
next
  case (Some u)
  then obtain b2 r a2 where u: "u = (b2, r, a2)" by (cases u) auto
  from Some u have "find (\<lambda>c. tag c = T_restriction) (children simple_type) = Some r"
    and "\<forall>x\<in>set b2. tag x \<noteq> T_restriction" and "tag r = T_restriction"
    using find_extract_Some[of "\<lambda>c. tag c = T_restriction" "children simple_type" b2 r a2]
    by auto
  then show ?thesis using Some u
    by (simp add: first_restriction_children_def restriction_with_def
        append_children_def find_append_first)
qed

lemma children_del_attr [simp]: "children (del_attr k e) = children e"
  by (simp add: del_attr_def)

lemma restriction_facets_attach:
  "restriction_facets (attach_facets base_type facets element)
     = restriction_facets element @ facets"
proof (cases "List.extract (\<lambda>c. tag c = T_simpleType) (children element)")
  case None
  then have f: "find (\<lambda>c. tag c = T_simpleType) (children element) = None"
    by (rule find_extract_None)
  obtain st' created where
    rw: "restriction_with base_type facets (ET_Element T_simpleType) = (st', created)"
    by (cases "restriction_with base_type facets (ET_Element T_simpleType)") auto
  have "first_restriction_children (ET_Element T_simpleType) = []"
    by (simp add: first_restriction_children_def ET_Element_def)
  with restriction_with_children[of base_type facets "ET_Element T_simpleType"] rw
  have c: "first_restriction_children st' = facets"
    by simp
  have "tag st' = tag (ET_Element T_simpleType)"
    using tag_restriction_with[of base_type facets "ET_Element T_simpleType"] rw by simp
  then have t: "tag st' = T_simpleType"
    by (simp add: ET_Element_def)
  show ?thesis using None f c t rw
    by (simp add: restriction_facets_def attach_facets_def append_child_def find_append_new)
next
  case (Some t)
  then obtain before st after where t: "t = (before, st, after)" by (cases t) auto
  from Some t have f: "find (\<lambda>c. tag c = T_simpleType) (children element) = Some st"
    and nb: "\<forall>x\<in>set before. tag x \<noteq> T_simpleType" and st: "tag st = T_simpleType"
    using find_extract_Some[of "\<lambda>c. tag c = T_simpleType" "children element" before st after]
    by auto
  obtain st' created where rw: "restriction_with base_type facets st = (st', created)"
    by (cases "restriction_with base_type facets st") auto
  have tg: "tag st' = T_simpleType"
    using st tag_restriction_with[of base_type facets st] rw by simp
  have c: "first_restriction_children st' = first_restriction_children st @ facets"
    using restriction_with_children[of base_type facets st] rw by simp
  show ?thesis using Some t f nb tg c rw
    by (simp add: restriction_facets_def attach_facets_def find_append_first)
qed

lemma tag_facet [simp]: "tag (facet t v) = t"
  by (simp add: facet_def set_attr_def ET_Element_def)


lemma process_facet_constraints_restriction:
  assumes "is_true (SHACL_value g shape_uri (sh ''pattern''))
           \<or> SHACL_value g shape_uri (sh ''minLength'') \<noteq> None
           \<or> SHACL_value g shape_uri (sh ''maxLength'') \<noteq> None
           \<or> SHACL_value g shape_uri (sh ''length'') \<noteq> None"
  shows "restriction_facets (process_facet_constraints g shape_uri element)
           = restriction_facets element @ facet_elements g shape_uri"
  using assms by (simp add: process_facet_constraints_def restriction_facets_attach)

text \<open>
  C1. A property shape whose only facet constraints are numeric bounds gets no
  restriction and no bound facet: the shape below has \<^verbatim>\<open>sh:minInclusive 1\<close> and
  \<^verbatim>\<open>sh:maxInclusive 120\<close>, and its element keeps the plain type \<^verbatim>\<open>integer\<close>.
\<close>

theorem C1_numeric_bounds_not_emitted:
  "SHACL_value g_bounds (ex ''PropertyShape/age'') (sh ''minInclusive'') = Some (int_lit ''1'' True)
   \<and> SHACL_value g_bounds (ex ''PropertyShape/age'') (sh ''maxInclusive'') = Some (int_lit ''120'' True)
   \<and> returned (process_property_shape g_bounds (ex ''PropertyShape/age'') init_state)
       = Some (Some (Element T_element [(''name'', ''age''), (''type'', ''integer'')] []))"
  by code_simp

text \<open>
  C5. For \<^verbatim>\<open>sh:in (0 1)\<close> the list walk drops the falsy literal \<^verbatim>\<open>0\<close>; the element gets
  \<^verbatim>\<open>fixed="1"\<close> and no enumeration.
\<close>

theorem C5_falsy_member_dropped:
  "get_rdf_list_items g_enum01 (BNode ''l1'') = Some [int_lit ''1'' True]
   \<and> returned (process_property_shape g_enum01 (ex ''PropertyShape/level'') init_state)
       = Some (Some (Element T_element [(''name'', ''level''), (''fixed'', ''1'')] []))"
  by code_simp

text \<open>
  C8. With no explicit \<^verbatim>\<open>sh:length\<close>: when \<^verbatim>\<open>sh:minLength\<close> and \<^verbatim>\<open>sh:maxLength\<close> are
  equal terms (\<^verbatim>\<open>==\<close> of line 503: same lexical form, same datatype, same language tag
  up to case), the restriction receives, after the pattern and bound facets, the single
  facet \<^verbatim>\<open>length\<close> with that value; when they differ, it receives \<^verbatim>\<open>minLength\<close> and
  \<^verbatim>\<open>maxLength\<close>, each if present.
\<close>

theorem C8_length_collapse:
  assumes "SHACL_value g shape_uri (sh ''length'') = None"
  shows "(SHACL_value g shape_uri (sh ''minLength'') = Some v
            \<and> SHACL_value g shape_uri (sh ''maxLength'') = Some v \<longrightarrow>
          restriction_facets (process_facet_constraints g shape_uri element)
            = restriction_facets element @ pattern_and_bound_facets g shape_uri
              @ [facet T_length v])
       \<and> (SHACL_value g shape_uri (sh ''minLength'') \<noteq> SHACL_value g shape_uri (sh ''maxLength'') \<longrightarrow>
          restriction_facets (process_facet_constraints g shape_uri element)
            = restriction_facets element @ pattern_and_bound_facets g shape_uri
              @ facet_opt T_minLength (SHACL_value g shape_uri (sh ''minLength''))
              @ facet_opt T_maxLength (SHACL_value g shape_uri (sh ''maxLength'')))"
proof (intro conjI impI)
  assume eq: "SHACL_value g shape_uri (sh ''minLength'') = Some v
                \<and> SHACL_value g shape_uri (sh ''maxLength'') = Some v"
  then have "restriction_facets (process_facet_constraints g shape_uri element)
               = restriction_facets element @ facet_elements g shape_uri"
    by (intro process_facet_constraints_restriction) simp
  then show "restriction_facets (process_facet_constraints g shape_uri element)
            = restriction_facets element @ pattern_and_bound_facets g shape_uri
              @ [facet T_length v]"
    using eq assms by (simp add: facet_elements_def length_facets_def)
next
  assume ne: "SHACL_value g shape_uri (sh ''minLength'') \<noteq> SHACL_value g shape_uri (sh ''maxLength'')"
  then have "SHACL_value g shape_uri (sh ''minLength'') \<noteq> None
             \<or> SHACL_value g shape_uri (sh ''maxLength'') \<noteq> None"
    by (cases "SHACL_value g shape_uri (sh ''minLength'')") auto
  then have "restriction_facets (process_facet_constraints g shape_uri element)
               = restriction_facets element @ facet_elements g shape_uri"
    by (intro process_facet_constraints_restriction) blast
  then show "restriction_facets (process_facet_constraints g shape_uri element)
            = restriction_facets element @ pattern_and_bound_facets g shape_uri
              @ facet_opt T_minLength (SHACL_value g shape_uri (sh ''minLength''))
              @ facet_opt T_maxLength (SHACL_value g shape_uri (sh ''maxLength''))"
    using ne assms by (simp add: facet_elements_def length_facets_def)
qed

theorem C8_length_collapse_witness:
  "SHACL_value g_len5 (ex ''PropertyShape/code'') (sh ''length'') = None
   \<and> SHACL_value g_len5 (ex ''PropertyShape/code'') (sh ''minLength'') = Some (int_lit ''5'' True)
   \<and> SHACL_value g_len5 (ex ''PropertyShape/code'') (sh ''maxLength'') = Some (int_lit ''5'' True)
   \<and> restriction_facets
        (process_facet_constraints g_len5 (ex ''PropertyShape/code'')
           (new_property_element g_len5 (ex ''PropertyShape/code'')))
       = [Element T_length [(''value'', ''5'')] []]
   \<and> SHACL_value g_len5_lang (ex ''PropertyShape/code'') (sh ''length'') = None
   \<and> SHACL_value g_len5_lang (ex ''PropertyShape/code'') (sh ''minLength'')
       = Some (lang_literal ''5'' ''en'' True)
   \<and> SHACL_value g_len5_lang (ex ''PropertyShape/code'') (sh ''maxLength'')
       = Some (lang_literal ''5'' ''EN'' True)
   \<and> restriction_facets
        (process_facet_constraints g_len5_lang (ex ''PropertyShape/code'')
           (new_property_element g_len5_lang (ex ''PropertyShape/code'')))
       = [Element T_length [(''value'', ''5'')] []]"
proof -
  have h: "SHACL_value g_len5 (ex ''PropertyShape/code'') (sh ''length'') = None"
    by code_simp
  have m: "SHACL_value g_len5 (ex ''PropertyShape/code'') (sh ''minLength'') = Some (int_lit ''5'' True)
           \<and> SHACL_value g_len5 (ex ''PropertyShape/code'') (sh ''maxLength'') = Some (int_lit ''5'' True)"
    by code_simp
  have e: "restriction_facets (new_property_element g_len5 (ex ''PropertyShape/code'')) = []"
    by code_simp
  have p: "pattern_and_bound_facets g_len5 (ex ''PropertyShape/code'') = []"
    by code_simp
  have f: "facet T_length (int_lit ''5'' True) = Element T_length [(''value'', ''5'')] []"
    by code_simp
  from C8_length_collapse [OF h, of "int_lit ''5'' True"
      "new_property_element g_len5 (ex ''PropertyShape/code'')"] m
  have "restriction_facets
          (process_facet_constraints g_len5 (ex ''PropertyShape/code'')
             (new_property_element g_len5 (ex ''PropertyShape/code'')))
        = restriction_facets (new_property_element g_len5 (ex ''PropertyShape/code''))
          @ pattern_and_bound_facets g_len5 (ex ''PropertyShape/code'')
          @ [facet T_length (int_lit ''5'' True)]"
    by blast
  then have one: "restriction_facets
        (process_facet_constraints g_len5 (ex ''PropertyShape/code'')
           (new_property_element g_len5 (ex ''PropertyShape/code'')))
       = [Element T_length [(''value'', ''5'')] []]"
    using e p f by simp
  have hl: "SHACL_value g_len5_lang (ex ''PropertyShape/code'') (sh ''length'') = None"
    by code_simp
  have ml: "SHACL_value g_len5_lang (ex ''PropertyShape/code'') (sh ''minLength'')
              = Some (lang_literal ''5'' ''en'' True)
           \<and> SHACL_value g_len5_lang (ex ''PropertyShape/code'') (sh ''maxLength'')
              = Some (lang_literal ''5'' ''en'' True)"
    by code_simp
  have c: "lang_literal ''5'' ''EN'' True = lang_literal ''5'' ''en'' True"
    by code_simp
  have el: "restriction_facets (new_property_element g_len5_lang (ex ''PropertyShape/code'')) = []"
    by code_simp
  have pl: "pattern_and_bound_facets g_len5_lang (ex ''PropertyShape/code'') = []"
    by code_simp
  have fl: "facet T_length (lang_literal ''5'' ''en'' True) = Element T_length [(''value'', ''5'')] []"
    by code_simp
  from C8_length_collapse [OF hl, of "lang_literal ''5'' ''en'' True"
      "new_property_element g_len5_lang (ex ''PropertyShape/code'')"] ml
  have "restriction_facets
          (process_facet_constraints g_len5_lang (ex ''PropertyShape/code'')
             (new_property_element g_len5_lang (ex ''PropertyShape/code'')))
        = restriction_facets (new_property_element g_len5_lang (ex ''PropertyShape/code''))
          @ pattern_and_bound_facets g_len5_lang (ex ''PropertyShape/code'')
          @ [facet T_length (lang_literal ''5'' ''en'' True)]"
    by blast
  then have two: "restriction_facets
        (process_facet_constraints g_len5_lang (ex ''PropertyShape/code'')
           (new_property_element g_len5_lang (ex ''PropertyShape/code'')))
       = [Element T_length [(''value'', ''5'')] []]"
    using el pl fl by simp
  from h m one hl ml c two show ?thesis
    by simp
qed

text \<open>
  C9. A property shape with no \<^verbatim>\<open>sh:path\<close> value (and no cached element) lowers to
  none: the call returns, raises nothing, and changes only the processed set; the loops
  that call it append nothing to their container or to the root.
\<close>

theorem C9_no_path_returns_none:
  assumes "SHACL_value g shape_uri (sh ''path'') = None"
    and "property_shape_map s shape_uri = None"
  shows "process_property_shape g shape_uri s
           = ret (None, s\<lparr>processed_shapes := insert shape_uri (processed_shapes s)\<rparr>)
       \<and> process_properties g [shape_uri] container complex_type s
           = ret (complex_type, s\<lparr>processed_shapes := insert shape_uri (processed_shapes s)\<rparr>)
       \<and> process_standalone g [shape_uri] s
           = ret (s\<lparr>processed_shapes := insert shape_uri (processed_shapes s)\<rparr>)
       \<and> (SHACL_contains g (shape_uri, RDF_type, sh ''PropertyShape'') \<longrightarrow>
            rdf_list_items_body lower g [shape_uri] parent_element s
              = ret (parent_element,
                     s\<lparr>processed_shapes := insert shape_uri (processed_shapes s)\<rparr>))"
proof -
  have eq: "s\<lparr>processed_shapes := insert shape_uri (processed_shapes s)\<rparr> = s"
    if "shape_uri \<in> processed_shapes s"
    using that by (simp add: insert_absorb)
  have p: "process_property_shape g shape_uri s
           = ret (None, s\<lparr>processed_shapes := insert shape_uri (processed_shapes s)\<rparr>)"
    using assms eq by (simp add: process_property_shape_def)
  then show ?thesis by simp
qed

theorem C9_no_path_returns_none_witness:
  "SHACL_value g_nopath (ex ''PropertyShape/x'') (sh ''path'') = None
   \<and> property_shape_map init_state (ex ''PropertyShape/x'') = None
   \<and> returned (process_property_shape g_nopath (ex ''PropertyShape/x'') init_state) = Some None"
proof -
  have h1: "SHACL_value g_nopath (ex ''PropertyShape/x'') (sh ''path'') = None"
    by code_simp
  have h2: "property_shape_map init_state (ex ''PropertyShape/x'') = None"
    by (simp add: init_state_def)
  from C9_no_path_returns_none [OF h1 h2]
  have "process_property_shape g_nopath (ex ''PropertyShape/x'') init_state
          = ret (None, init_state\<lparr>processed_shapes :=
                   insert (ex ''PropertyShape/x'') (processed_shapes init_state)\<rparr>)"
    by blast
  then show ?thesis using h1 h2 by (simp add: returned_def ret_def)
qed




lemma tag_append_children [simp]: "tag (append_children cs e) = tag e"
  and attrib_append_children [simp]: "attrib (append_children cs e) = attrib e"
  and children_append_children [simp]: "children (append_children cs e) = children e @ cs"
  by (simp_all add: append_children_def)

lemma tag_append_child [simp]: "tag (append_child c e) = tag e"
  and attrib_append_child [simp]: "attrib (append_child c e) = attrib e"
  and children_append_child [simp]: "children (append_child c e) = children e @ [c]"
  by (simp_all add: append_child_def)

lemma rdf_list_items_body_appends:
  "rdf_list_items_body lower g items p s = ret (p', s') \<Longrightarrow>
   tag p' = tag p \<and> attrib p' = attrib p \<and> (\<exists>cs. children p' = children p @ cs)"
proof (induction items arbitrary: p s)
  case Nil
  then show ?case by simp
next
  case (Cons item items)
  show ?case
  proof (cases "SHACL_contains g (item, RDF_type, sh ''PropertyShape'')")
    case True
    with Cons.prems obtain r s1 where
      "rdf_list_items_body lower g items
         (case r of None \<Rightarrow> p | Some e \<Rightarrow> append_child e p) s1 = ret (p', s')"
      by (auto simp: run_bind_eq_ret)
    from Cons.IH [OF this] show ?thesis
      by (cases r) auto
  next
    case False
    with Cons.prems have "\<exists>(r :: xml option) s1. rdf_list_items_body lower g items
         (case r of None \<Rightarrow> p
          | Some e \<Rightarrow> append_child
              (set_attr ''ref'' (get_shape_name g item) (ET_Element T_element)) p) s1
       = ret (p', s')"
      by (auto simp: run_bind_eq_ret)
    then obtain r :: "xml option" and s1 where "rdf_list_items_body lower g items
         (case r of None \<Rightarrow> p
          | Some e \<Rightarrow> append_child
              (set_attr ''ref'' (get_shape_name g item) (ET_Element T_element)) p) s1
       = ret (p', s')"
      by blast
    from Cons.IH [OF this] show ?thesis
      by (cases r) auto
  qed
qed


text \<open>
  C10. When the list walk of a node-level \<^verbatim>\<open>sh:or\<close> yields no item, the classifier is
  true and the container receives a \<^verbatim>\<open>simpleType\<close> holding a \<^verbatim>\<open>union\<close> whose
  \<^verbatim>\<open>memberTypes\<close> is the empty string; no choice is made and no state changes.
\<close>

theorem C10_empty_disjunction_union:
  assumes "get_rdf_list_items g list_node = Some []"
  shows "are_simple_type_constraints g []
       \<and> process_choice_constraint fuel g list_node parent_element False s
           = ret (append_child
                    (Element T_simpleType [] [Element T_union [(''memberTypes'', '''')] []])
                    parent_element, s)
       \<and> (SHACL_objects g shape_uri (sh ''or'') = list_node # other_values \<longrightarrow>
            lower_choice (process_node_shape fuel g) g shape_uri False extension complex_type s
              = ret (append_at (container_of extension)
                       (Element T_simpleType [] [Element T_union [(''memberTypes'', '''')] []])
                       complex_type, s))"
proof -
  have u: "union_element g [] = Element T_union [(''memberTypes'', '''')] []"
    by (simp add: union_element_def set_attr_def ET_Element_def)
  have c: "choice_constraint_body lower g list_node p False s
             = ret (append_child
                      (Element T_simpleType [] [Element T_union [(''memberTypes'', '''')] []]) p, s)"
    for lower p
    using assms by (simp add: choice_constraint_body_def u append_child_def ET_Element_def)
  show ?thesis
    by (simp add: process_choice_constraint_def c lower_choice_def append_at_def)
qed

theorem C10_empty_disjunction_union_witness:
  "get_rdf_list_items g_or_empty RDF_nil = Some []
   \<and> SHACL_objects g_or_empty (ex ''NodeShape/N'') (sh ''or'') = [RDF_nil]
   \<and> process_choice_constraint 1 g_or_empty RDF_nil (ET_Element T_complexType) False init_state
       = ret (Element T_complexType []
                [Element T_simpleType [] [Element T_union [(''memberTypes'', '''')] []]],
              init_state)"
proof -
  have h: "get_rdf_list_items g_or_empty RDF_nil = Some []"
    by code_simp
  have o: "SHACL_objects g_or_empty (ex ''NodeShape/N'') (sh ''or'') = [RDF_nil]"
    by code_simp
  from C10_empty_disjunction_union [OF h, of 1 "ET_Element T_complexType" init_state]
  have "process_choice_constraint 1 g_or_empty RDF_nil (ET_Element T_complexType) False init_state
          = ret (append_child
                   (Element T_simpleType [] [Element T_union [(''memberTypes'', '''')] []])
                   (ET_Element T_complexType), init_state)"
    by blast
  then show ?thesis using h o by (simp add: append_child_def ET_Element_def)
qed


lemma extends_refl [simp]: "extends s s"
  by (simp add: extends_def)

lemma extends_trans: "extends s s' \<Longrightarrow> extends s' s'' \<Longrightarrow> extends s s''"
  unfolding extends_def by (auto; blast)

lemma extends_processed: "extends s (s\<lparr>processed_shapes := insert x (processed_shapes s)\<rparr>)"
  by (auto simp: extends_def root_children_def)

lemma remember_property_extends:
  "remember_property x e s = ret (r, s') \<Longrightarrow> extends s s'"
  by (auto simp: remember_property_def extends_def root_children_def)

lemma process_property_shape_extends:
  assumes "process_property_shape g x s = ret (r, s')"
  shows "extends s s'"
proof -
  let ?s1 = "s\<lparr>processed_shapes := insert x (processed_shapes s)\<rparr>"
  have e1: "extends s ?s1" by (rule extends_processed)
  from assms consider "s' = s" | "s' = ?s1" | e where "remember_property x e ?s1 = ret (r, s')"
    by (auto simp: process_property_shape_def run_bind_eq_ret
        split: if_splits option.splits)
  then show ?thesis
  proof cases
    case 3
    from extends_trans [OF e1 remember_property_extends [OF 3]] show ?thesis .
  qed (auto simp: e1)
qed

lemma process_properties_extends:
  "process_properties g props container ct s = ret (ct', s') \<Longrightarrow> extends s s'"
proof (induction props arbitrary: ct s)
  case Nil
  then show ?case by simp
next
  case (Cons pr props)
  then obtain r s1 ct1 where p: "process_property_shape g pr s = ret (r, s1)"
    and rest: "process_properties g props container ct1 s1 = ret (ct', s')"
    by (auto simp: run_bind_eq_ret)
  from extends_trans [OF process_property_shape_extends [OF p] Cons.IH [OF rest]]
  show ?case .
qed

lemma root_append_eq:
  "root_append e s = ret s' \<longleftrightarrow>
     (\<exists>r. xsd_root s = Some r \<and> s' = s\<lparr>xsd_root := Some (append_child e r)\<rparr>)"
  by (auto simp: root_append_def ret_def raise_def split: option.splits)

lemma root_append_facts:
  assumes "root_append e s = ret s'"
  shows "root_children s' = root_children s @ [e]"
    and "processed_shapes s' = processed_shapes s"
    and "node_shape_map s' = node_shape_map s"
    and "xsd_root s' \<noteq> None"
  using assms by (auto simp: root_append_eq root_children_def)

lemma emit_target_elements_facts:
  "emit_target_elements e tcs s = ret s' \<Longrightarrow>
     root_children s' = root_children s @ replicate (length tcs) e
     \<and> processed_shapes s' = processed_shapes s
     \<and> node_shape_map s' = node_shape_map s
     \<and> (xsd_root s \<noteq> None \<longrightarrow> xsd_root s' \<noteq> None)"
proof (induction tcs arbitrary: s)
  case Nil
  then show ?case by simp
next
  case (Cons tc tcs)
  then obtain s1 where a: "root_append e s = ret s1"
    and b: "emit_target_elements e tcs s1 = ret s'"
    by (auto simp: run_bind_eq_ret)
  from Cons.IH [OF b] root_append_facts [OF a] show ?case
    by (simp add: replicate_append_same)
qed

lemma emit_node_shape_facts:
  assumes "emit_node_shape g x ext ct s = ret (r, s')"
  shows "r = Some ct"
    and "root_children s' = root_children s
           @ replicate (length (SHACL_objects g x (sh ''targetClass'')))
               (target_element g x ext ct) @ [ct]"
    and "processed_shapes s' = processed_shapes s"
    and "node_shape_map s' = (node_shape_map s)(x \<mapsto> ct)"
    and "xsd_root s' \<noteq> None"
proof -
  let ?s0 = "s\<lparr>node_shape_map := (node_shape_map s)(x \<mapsto> ct)\<rparr>"
  from assms obtain s1 s2 where
    a: "emit_target_elements (target_element g x ext ct)
          (SHACL_objects g x (sh ''targetClass'')) ?s0 = ret s1"
    and b: "root_append ct s1 = ret s2" and c: "r = Some ct" "s' = s2"
    by (auto simp: emit_node_shape_def run_bind_eq_ret)
  have r0: "root_children ?s0 = root_children s"
    by (simp add: root_children_def)
  from emit_target_elements_facts [OF a] root_append_facts [OF b] c r0
  show "r = Some ct"
    and "root_children s' = root_children s
           @ replicate (length (SHACL_objects g x (sh ''targetClass'')))
               (target_element g x ext ct) @ [ct]"
    and "processed_shapes s' = processed_shapes s"
    and "node_shape_map s' = (node_shape_map s)(x \<mapsto> ct)"
    and "xsd_root s' \<noteq> None"
    by simp_all
qed

lemma rdf_list_items_body_extends:
  assumes "sound lower"
  shows "rdf_list_items_body lower g items p s = ret (p', s') \<Longrightarrow> extends s s'"
proof (induction items arbitrary: p s)
  case Nil
  then show ?case by simp
next
  case (Cons item items)
  then obtain s1 p1 where
    step: "(\<exists>r. process_property_shape g item s = ret (r, s1)) \<or> (\<exists>r. lower item s = ret (r, s1))"
    and rest: "rdf_list_items_body lower g items p1 s1 = ret (p', s')"
    by (auto simp: run_bind_eq_ret split: if_splits)
  from step assms have "extends s s1"
    by (auto simp: sound_def dest: process_property_shape_extends)
  from extends_trans [OF this Cons.IH [OF rest]] show ?case .
qed

lemma rdf_list_body_extends:
  "sound lower \<Longrightarrow> rdf_list_body lower g l p s = ret (p', s') \<Longrightarrow> extends s s'"
  by (auto simp: rdf_list_body_def ret_def split: option.splits
      dest: rdf_list_items_body_extends [unfolded ret_def])

lemma choice_constraint_body_extends:
  "sound lower \<Longrightarrow> choice_constraint_body lower g l p x s = ret (p', s') \<Longrightarrow> extends s s'"
  by (auto simp: choice_constraint_body_def run_bind_eq_ret
      split: if_splits option.splits dest: rdf_list_body_extends)

lemma lower_base_extends:
  "sound lower \<Longrightarrow> lower_base lower g x s = ret (e, s') \<Longrightarrow> extends s s'"
  by (auto simp: lower_base_def run_bind_eq_ret sound_def split: list.splits)

lemma lower_choice_extends:
  "sound lower \<Longrightarrow> lower_choice lower g x b e ct s = ret (ct', s') \<Longrightarrow> extends s s'"
  by (auto simp: lower_choice_def run_bind_eq_ret split: list.splits
      dest: choice_constraint_body_extends)

lemma lower_properties_extends:
  "lower_properties g x e ct s = ret (ct', s') \<Longrightarrow> extends s s'"
  by (auto simp: lower_properties_def split: if_splits dest: process_properties_extends)

text \<open>The stages of a first lowering.\<close>

lemma node_shape_body_stages:
  assumes "x \<notin> processed_shapes s" and "node_shape_body lower g x s = ret (r, s')"
  obtains extension s1 ct1 s2 ct2 s3 ct3 s4 where
    "lower_base lower g x (s\<lparr>processed_shapes := insert x (processed_shapes s)\<rparr>)
       = ret (extension, s1)"
    "lower_choice lower g x True extension (new_complex_type g x extension) s1 = ret (ct1, s2)"
    "lower_choice lower g x False extension ct1 s2 = ret (ct2, s3)"
    "lower_properties g x extension ct2 s3 = ret (ct3, s4)"
    "emit_node_shape g x extension ct3 s4 = ret (r, s')"
  using assms by (auto simp: node_shape_body_def run_bind_eq_ret)

lemma node_shape_body_first:
  assumes snd: "sound lower" and new: "x \<notin> processed_shapes s"
    and run: "node_shape_body lower g x s = ret (r, s')"
  shows "extends s s' \<and> x \<in> processed_shapes s' \<and> (\<exists>ct. r = Some ct \<and> node_shape_map s' x = Some ct)"
proof -
  let ?s0 = "s\<lparr>processed_shapes := insert x (processed_shapes s)\<rparr>"
  from new run obtain extension s1 ct1 s2 ct2 s3 ct3 s4 where
    st: "lower_base lower g x ?s0 = ret (extension, s1)"
    "lower_choice lower g x True extension (new_complex_type g x extension) s1 = ret (ct1, s2)"
    "lower_choice lower g x False extension ct1 s2 = ret (ct2, s3)"
    "lower_properties g x extension ct2 s3 = ret (ct3, s4)"
    "emit_node_shape g x extension ct3 s4 = ret (r, s')"
    by (rule node_shape_body_stages)
  have e4: "extends ?s0 s4"
    using lower_base_extends [OF snd st(1)] lower_choice_extends [OF snd st(2)]
      lower_choice_extends [OF snd st(3)] lower_properties_extends [OF st(4)]
    by (blast intro: extends_trans)
  have e04: "extends s s4"
    using extends_trans [OF extends_processed e4] .
  have x4: "x \<in> processed_shapes s4"
    using e4 by (auto simp: extends_def)
  note f = emit_node_shape_facts [OF st(5)]
  have "extends s s'"
    using e04 f new unfolding extends_def by auto
  then show ?thesis using f x4 by simp
qed

lemma node_shape_body_sound:
  assumes "sound lower"
  shows "sound (node_shape_body lower g)"
  unfolding sound_def
proof (intro allI impI)
  fix x s r s'
  assume run: "node_shape_body lower g x s = ret (r, s')"
  show "extends s s'"
  proof (cases "x \<in> processed_shapes s")
    case True
    with run show ?thesis by (simp add: node_shape_body_def)
  next
    case False
    from node_shape_body_first [OF assms False run] show ?thesis by simp
  qed
qed

lemma process_node_shape_sound: "sound (process_node_shape fuel g)"
proof (induction fuel)
  case 0
  show ?case by (simp add: sound_def ret_def)
next
  case (Suc fuel)
  then show ?case by (simp add: node_shape_body_sound)
qed

lemma later_extends: "later g s s' \<Longrightarrow> extends s s'"
proof (induction rule: later.induct)
  case (later_refl s)
  show ?case by simp
next
  case (later_enter s s' x)
  from extends_trans [OF later_enter.IH extends_processed] show ?case .
next
  case (later_node s s' fuel x r s'')
  from process_node_shape_sound [of fuel g] later_node.hyps(2) have "extends s' s''"
    by (auto simp: sound_def)
  from extends_trans [OF later_node.IH this] show ?case .
next
  case (later_property s s' x r s'')
  from extends_trans [OF later_property.IH process_property_shape_extends [OF later_property.hyps(2)]]
  show ?case .
next
  case (later_append s s' e s'')
  from root_append_facts [OF later_append.hyps(2)] have "extends s' s''"
    by (auto simp: extends_def)
  from extends_trans [OF later_append.IH this] show ?case .
qed

lemma tag_put_at [simp]: "tag (put_at (i # p) c e) = tag e"
  by simp

lemma tags_put_at [simp]: "map tag (children (put_at (i # j # p) c e)) = map tag (children e)"
proof -
  have "map tag ((children e)[i := put_at (j # p) c (children e ! i)]) = map tag (children e)"
    by (cases "i < length (children e)")
      (simp_all add: map_update list_update_same_conv list_update_beyond)
  then show ?thesis by simp
qed

lemma tag_append_at [simp]: "tag (append_at p c e) = tag e"
  by (cases p) (simp_all add: append_at_def)

lemma tag_new_complex_type [simp]: "tag (new_complex_type g x extension) = T_complexType"
  by (simp add: new_complex_type_def set_attr_def ET_Element_def split: option.splits)

lemma tags_new_complex_type [simp]:
  "map tag (children (new_complex_type g x (Some base))) = [T_complexContent]"
  by (simp add: new_complex_type_def set_attr_def ET_Element_def)

lemma choice_constraint_body_tag:
  "choice_constraint_body lower g l p b s = ret (p', s') \<Longrightarrow> tag p' = tag p"
  by (auto simp: choice_constraint_body_def run_bind_eq_ret split: if_splits option.splits)

lemma lower_choice_cases:
  assumes "lower_choice lower g x b extension ct s = ret (ct', s')"
  shows "ct' = ct
       \<or> (\<exists>l p'. choice_constraint_body lower g l (get_at (container_of extension) ct) b s
                    = ret (p', s')
                \<and> ct' = put_at (container_of extension) p' ct)"
proof (cases "SHACL_objects g x (sh (if b then ''xone'' else ''or''))")
  case Nil
  with assms show ?thesis by (simp add: lower_choice_def)
next
  case (Cons l ls)
  with assms have "\<exists>p'. choice_constraint_body lower g l (get_at (container_of extension) ct) b s
                    = ret (p', s')
                \<and> ct' = put_at (container_of extension) p' ct"
    by (auto simp: lower_choice_def run_bind_eq_ret)
  then show ?thesis by blast
qed

lemma lower_choice_tag:
  assumes "lower_choice lower g x b extension ct s = ret (ct', s')"
  shows "tag ct' = tag ct"
    and "extension \<noteq> None \<Longrightarrow> map tag (children ct') = map tag (children ct)"
proof -
  from lower_choice_cases [OF assms] show "tag ct' = tag ct"
  proof (elim disjE exE conjE)
    assume "ct' = ct"
    then show ?thesis by simp
  next
    fix l p'
    assume c: "choice_constraint_body lower g l (get_at (container_of extension) ct) b s
                 = ret (p', s')"
      and p: "ct' = put_at (container_of extension) p' ct"
    show ?thesis
    proof (cases extension)
      case None
      with c p choice_constraint_body_tag [OF c] show ?thesis by simp
    next
      case (Some base)
      with p show ?thesis by simp
    qed
  qed
  assume "extension \<noteq> None"
  then obtain base where e: "extension = Some base" by auto
  from lower_choice_cases [OF assms] show "map tag (children ct') = map tag (children ct)"
  proof (elim disjE exE conjE)
    assume "ct' = ct"
    then show ?thesis by simp
  next
    fix l p'
    assume p: "ct' = put_at (container_of extension) p' ct"
    have "map tag (children (put_at [0, 0] p' ct)) = map tag (children ct)"
      by (rule tags_put_at)
    with p e show ?thesis by simp
  qed
qed

lemma process_properties_tag:
  "process_properties g props container ct s = ret (ct', s') \<Longrightarrow> tag ct' = tag ct"
proof (induction props arbitrary: ct s)
  case Nil
  then show ?case by simp
next
  case (Cons pr props)
  then obtain r s1 where
    rest: "process_properties g props container
             (case r of None \<Rightarrow> ct
              | Some e \<Rightarrow> if tag e = T_element then append_at container e ct
                          else if tag e = T_attribute then append_child e ct else ct) s1
           = ret (ct', s')"
    by (auto simp: run_bind_eq_ret)
  from Cons.IH [OF rest] show ?case
    by (cases r) (auto split: if_splits)
qed

lemma lower_properties_tag:
  assumes "lower_properties g x extension ct s = ret (ct', s')"
  shows "tag ct' = tag ct"
    and "SHACL_objects g x (sh ''property'') = [] \<Longrightarrow> ct' = ct"
  using assms
  by (auto simp: lower_properties_def split: if_splits dest: process_properties_tag)

lemma target_element_eq:
  "target_element g x extension ct
     = Element T_element
         [(''name'', get_shape_name g x),
          (''type'',
           case extension of
             Some base_name \<Rightarrow>
               if list_all (\<lambda>child. tag child = T_complexContent) (children ct)
                  \<and> SHACL_objects g x (sh ''property'') = []
               then base_name else get_shape_name g x
           | None \<Rightarrow> get_shape_name g x)] []"
  by (cases extension) (auto simp: target_element_def set_attr_def ET_Element_def)

lemma list_all_tags: "map tag cs = [t] \<Longrightarrow> list_all (\<lambda>child. tag child = t) cs"
  by (cases cs) auto

lemma returned_ret [simp]: "returned (ret (r, s)) = Some r"
  by (simp add: returned_def ret_def)

lemma lower_base_base_lowered:
  assumes "lower_base (process_node_shape fuel g) g x
             (s\<lparr>processed_shapes := insert x (processed_shapes s)\<rparr>) = ret (extension, s1)"
  shows "extension = base_lowered fuel g x s"
  using assms
  by (auto simp: lower_base_def base_lowered_def run_bind_eq_ret returned_ret
      split: list.splits)

lemma node_shape_body_root:
  assumes snd: "sound lower" and new: "x \<notin> processed_shapes s"
    and run: "node_shape_body lower g x s = ret (r, s')"
  shows "\<exists>extension s1 ct inner.
           lower_base lower g x (s\<lparr>processed_shapes := insert x (processed_shapes s)\<rparr>)
             = ret (extension, s1)
           \<and> r = Some ct
           \<and> tag ct = T_complexType
           \<and> root_children s' = root_children s @ inner
                @ replicate (length (SHACL_objects g x (sh ''targetClass'')))
                    (Element T_element
                       [(''name'', get_shape_name g x),
                        (''type'', target_type g x extension)] [])
                @ [ct]"
proof -
  let ?s0 = "s\<lparr>processed_shapes := insert x (processed_shapes s)\<rparr>"
  from new run obtain extension s1 ct1 s2 ct2 s3 ct3 s4 where
    st: "lower_base lower g x ?s0 = ret (extension, s1)"
    "lower_choice lower g x True extension (new_complex_type g x extension) s1 = ret (ct1, s2)"
    "lower_choice lower g x False extension ct1 s2 = ret (ct2, s3)"
    "lower_properties g x extension ct2 s3 = ret (ct3, s4)"
    "emit_node_shape g x extension ct3 s4 = ret (r, s')"
    by (rule node_shape_body_stages)
  have "extends ?s0 s4"
    using lower_base_extends [OF snd st(1)] lower_choice_extends [OF snd st(2)]
      lower_choice_extends [OF snd st(3)] lower_properties_extends [OF st(4)]
    by (blast intro: extends_trans)
  then obtain inner where inner: "root_children s4 = root_children s @ inner"
    by (auto simp: extends_def root_children_def)
  have t: "tag ct3 = T_complexType"
    using lower_choice_tag(1) [OF st(2)] lower_choice_tag(1) [OF st(3)]
      lower_properties_tag(1) [OF st(4)] by simp
  have te: "target_element g x extension ct3
              = Element T_element
                  [(''name'', get_shape_name g x), (''type'', target_type g x extension)] []"
  proof (cases "extension \<noteq> None \<and> SHACL_objects g x (sh ''property'') = []")
    case True
    then obtain base where b: "extension = Some base" by auto
    have "map tag (children ct2) = [T_complexContent]"
      using lower_choice_tag(2) [OF st(2)] lower_choice_tag(2) [OF st(3)] b by simp
    with lower_properties_tag(2) [OF st(4)] True
    have "list_all (\<lambda>child. tag child = T_complexContent) (children ct3)"
      by (simp add: list_all_tags)
    with True b show ?thesis
      by (simp add: target_element_eq target_type_def)
  next
    case False
    then show ?thesis
      by (cases extension) (auto simp: target_element_eq target_type_def)
  qed
  note f = emit_node_shape_facts [OF st(5)]
  have "root_children s' = root_children s @ inner
          @ replicate (length (SHACL_objects g x (sh ''targetClass'')))
              (Element T_element
                 [(''name'', get_shape_name g x), (''type'', target_type g x extension)] [])
          @ [ct3]"
    using f(2) inner te by simp
  with st(1) f(1) t show ?thesis by blast
qed

lemma process_node_shape_root:
  assumes "x \<notin> processed_shapes s" and "process_node_shape (Suc fuel) g x s = ret (r, s')"
  shows "\<exists>ct inner.
           r = Some ct
           \<and> tag ct = T_complexType
           \<and> root_children s' = root_children s @ inner
                @ replicate (length (SHACL_objects g x (sh ''targetClass'')))
                    (Element T_element
                       [(''name'', get_shape_name g x),
                        (''type'', target_type g x (base_lowered fuel g x s))] [])
                @ [ct]"
proof -
  from assms(2) have "node_shape_body (process_node_shape fuel g) g x s = ret (r, s')"
    by simp
  from node_shape_body_root [OF process_node_shape_sound assms(1) this]
  obtain extension s1 ct inner where
    b: "lower_base (process_node_shape fuel g) g x
          (s\<lparr>processed_shapes := insert x (processed_shapes s)\<rparr>) = ret (extension, s1)"
    and r: "r = Some ct" "tag ct = T_complexType"
      "root_children s' = root_children s @ inner
         @ replicate (length (SHACL_objects g x (sh ''targetClass'')))
             (Element T_element
                [(''name'', get_shape_name g x), (''type'', target_type g x extension)] [])
         @ [ct]"
    by auto
  from lower_base_base_lowered [OF b] r show ?thesis by auto
qed

text \<open>
  C7 (amended). On its first lowering a node shape gets, for each target class, a
  top-level element placed right before its complex type. If the shape has a base whose
  lowering returned a node, and no \<^verbatim>\<open>sh:property\<close>, \<^verbatim>\<open>sh:xone\<close> or \<^verbatim>\<open>sh:or\<close> value, the
  element's type is the base's name. If the shape has no base, or the lowering of its
  base returned none, or it has a \<^verbatim>\<open>sh:property\<close> value, the type is the shape's own
  name.
\<close>

theorem C7_target_element_type:
  assumes "shape_uri \<notin> processed_shapes s"
    and "process_node_shape (Suc fuel) g shape_uri s = ret (r, s')"
  shows "\<exists>inner complex_type type_name.
           r = Some complex_type
           \<and> root_children s' = root_children s @ inner
                @ replicate (length (SHACL_objects g shape_uri (sh ''targetClass'')))
                    (Element T_element
                       [(''name'', get_shape_name g shape_uri), (''type'', type_name)] [])
                @ [complex_type]
           \<and> (\<forall>base_name.
                 base_lowered fuel g shape_uri s = Some base_name
                 \<and> SHACL_objects g shape_uri (sh ''property'') = []
                 \<and> SHACL_objects g shape_uri (sh ''xone'') = []
                 \<and> SHACL_objects g shape_uri (sh ''or'') = [] \<longrightarrow>
                 type_name = base_name)
           \<and> (base_lowered fuel g shape_uri s = None
                 \<or> SHACL_objects g shape_uri (sh ''property'') \<noteq> [] \<longrightarrow>
               type_name = get_shape_name g shape_uri)"
proof -
  from process_node_shape_root [OF assms] obtain ct inner where
    r: "r = Some ct"
    and root: "root_children s' = root_children s @ inner
                @ replicate (length (SHACL_objects g shape_uri (sh ''targetClass'')))
                    (Element T_element
                       [(''name'', get_shape_name g shape_uri),
                        (''type'', target_type g shape_uri (base_lowered fuel g shape_uri s))] [])
                @ [ct]"
    by auto
  have a: "\<forall>base_name.
             base_lowered fuel g shape_uri s = Some base_name
             \<and> SHACL_objects g shape_uri (sh ''property'') = []
             \<and> SHACL_objects g shape_uri (sh ''xone'') = []
             \<and> SHACL_objects g shape_uri (sh ''or'') = [] \<longrightarrow>
             target_type g shape_uri (base_lowered fuel g shape_uri s) = base_name"
    by (simp add: target_type_def)
  have b: "base_lowered fuel g shape_uri s = None
             \<or> SHACL_objects g shape_uri (sh ''property'') \<noteq> [] \<longrightarrow>
           target_type g shape_uri (base_lowered fuel g shape_uri s) = get_shape_name g shape_uri"
    by (auto simp: target_type_def split: option.splits)
  from r root a b show ?thesis by blast
qed

lemma returned_Some: "returned m = Some r \<Longrightarrow> \<exists>s. m = ret (r, s)"
  by (auto simp: returned_def ret_def split: option.splits sum.splits)

lemma returned_root_ret [simp]: "returned_root (ret (r, s)) = root_children s"
  by (simp add: returned_root_def ret_def)

lemma final_root_ret [simp]: "final_root (ret s) = root_children s"
  by (simp add: final_root_def ret_def)

lemma process_node_shape_cached:
  "x \<in> processed_shapes s \<Longrightarrow>
   process_node_shape (Suc fuel) g x s = ret (node_shape_map s x, s)"
  by (simp add: node_shape_body_def)

text \<open>
  The test of lines 161 to 163 sees the direct children of the complex type only. A
  choice of a shape with a base is placed inside the extension: the shape \<^verbatim>\<open>A\<close> below
  extends \<^verbatim>\<open>B\<close> and has an exclusive choice, and its top-level element gets the type
  \<^verbatim>\<open>B\<close> as well.
\<close>

lemma choice_shape_gets_base_type:
  "SHACL_objects g_ext_choice (ex ''NodeShape/A'') (sh ''xone'') = [BNode ''x1'']
   \<and> get_shape_name g_ext_choice (ex ''NodeShape/A'') = ''A''
   \<and> returned_root (process_node_shape 3 g_ext_choice (ex ''NodeShape/A'') pass_start)
       = [Element T_complexType [(''name'', ''B'')] [],
          Element T_element [(''name'', ''A''), (''type'', ''B'')] [],
          Element T_complexType [(''name'', ''A'')]
            [Element T_complexContent []
               [Element T_extension [(''base'', ''B'')]
                  [Element T_choice []
                     [Element T_element [(''name'', ''p''), (''type'', ''string'')] []]]]]]"
  by code_simp

text \<open>
  C7, as stated, fails where the lowering of the base returns none. In the graph below
  \<^verbatim>\<open>A\<close> extends \<^verbatim>\<open>B\<close> and \<^verbatim>\<open>B\<close> extends \<^verbatim>\<open>A\<close>. Lowering \<^verbatim>\<open>A\<close> lowers \<^verbatim>\<open>B\<close>, whose base
  \<^verbatim>\<open>A\<close> is still in progress: \<^verbatim>\<open>B\<close> has a base, no property, no choice and a target
  class, and its element gets its own name \<^verbatim>\<open>B\<close> as type, not the base's name \<^verbatim>\<open>A\<close>.
\<close>

theorem C7_base_in_progress_own_type:
  "SHACL_objects g_two_cycle (ex ''NodeShape/B'') (sh ''node'') = [ex ''NodeShape/A'']
   \<and> SHACL_objects g_two_cycle (ex ''NodeShape/B'') (sh ''property'') = []
   \<and> SHACL_objects g_two_cycle (ex ''NodeShape/B'') (sh ''xone'') = []
   \<and> SHACL_objects g_two_cycle (ex ''NodeShape/B'') (sh ''or'') = []
   \<and> SHACL_objects g_two_cycle (ex ''NodeShape/B'') (sh ''targetClass'') = [ex ''B'']
   \<and> get_shape_name g_two_cycle (ex ''NodeShape/A'') = ''A''
   \<and> returned_root (process_node_shape 3 g_two_cycle (ex ''NodeShape/A'') pass_start)
       = [Element T_element [(''name'', ''B''), (''type'', ''B'')] [],
          Element T_complexType [(''name'', ''B'')] [],
          Element T_complexType [(''name'', ''A'')]
            [Element T_complexContent [] [Element T_extension [(''base'', ''B'')] []]]]"
  by code_simp

theorem C7_target_element_type_witness:
  "ex ''NodeShape/A'' \<notin> processed_shapes pass_start
   \<and> base_lowered 2 g_ext (ex ''NodeShape/A'') pass_start = Some ''B''
   \<and> SHACL_objects g_ext (ex ''NodeShape/A'') (sh ''property'') = []
   \<and> SHACL_objects g_ext (ex ''NodeShape/A'') (sh ''xone'') = []
   \<and> SHACL_objects g_ext (ex ''NodeShape/A'') (sh ''or'') = []
   \<and> (\<exists>inner complex_type.
         returned_root (process_node_shape 3 g_ext (ex ''NodeShape/A'') pass_start)
           = inner @ [Element T_element [(''name'', ''A''), (''type'', ''B'')] [], complex_type])"
proof -
  have new: "ex ''NodeShape/A'' \<notin> processed_shapes pass_start"
    by (simp add: pass_start_def init_state_def)
  have b: "base_lowered 2 g_ext (ex ''NodeShape/A'') pass_start = Some ''B''"
    by code_simp
  have p: "SHACL_objects g_ext (ex ''NodeShape/A'') (sh ''property'') = []
           \<and> SHACL_objects g_ext (ex ''NodeShape/A'') (sh ''xone'') = []
           \<and> SHACL_objects g_ext (ex ''NodeShape/A'') (sh ''or'') = []"
    by code_simp
  have t: "length (SHACL_objects g_ext (ex ''NodeShape/A'') (sh ''targetClass'')) = 1"
    by code_simp
  have n: "get_shape_name g_ext (ex ''NodeShape/A'') = ''A''"
    by code_simp
  have r0: "root_children pass_start = []"
    by code_simp
  have "returned (process_node_shape 3 g_ext (ex ''NodeShape/A'') pass_start)
          = Some (Some (Element T_complexType [(''name'', ''A'')]
               [Element T_complexContent [] [Element T_extension [(''base'', ''B'')] []]]))"
    by code_simp
  then obtain s' where run:
    "process_node_shape (Suc 2) g_ext (ex ''NodeShape/A'') pass_start
       = ret (Some (Element T_complexType [(''name'', ''A'')]
               [Element T_complexContent [] [Element T_extension [(''base'', ''B'')] []]]), s')"
    using returned_Some by (fastforce simp: numeral_3_eq_3)
  from C7_target_element_type [OF new run] obtain inner complex_type type_name where
    root: "root_children s' = root_children pass_start @ inner
       @ replicate (length (SHACL_objects g_ext (ex ''NodeShape/A'') (sh ''targetClass'')))
           (Element T_element
              [(''name'', get_shape_name g_ext (ex ''NodeShape/A'')), (''type'', type_name)] [])
       @ [complex_type]"
    and ty: "\<forall>base_name.
                 base_lowered 2 g_ext (ex ''NodeShape/A'') pass_start = Some base_name
                 \<and> SHACL_objects g_ext (ex ''NodeShape/A'') (sh ''property'') = []
                 \<and> SHACL_objects g_ext (ex ''NodeShape/A'') (sh ''xone'') = []
                 \<and> SHACL_objects g_ext (ex ''NodeShape/A'') (sh ''or'') = [] \<longrightarrow>
                 type_name = base_name"
    by blast
  from ty b p have "type_name = ''B''" by blast
  with root have "root_children s'
               = inner @ [Element T_element [(''name'', ''A''), (''type'', ''B'')] [], complex_type]"
    by (simp add: t n r0)
  moreover have "returned_root (process_node_shape 3 g_ext (ex ''NodeShape/A'') pass_start)
                   = root_children s'"
    using run by (simp add: numeral_3_eq_3)
  ultimately show ?thesis using new b p by auto
qed

text \<open>
  C3 (amended). The first lowering of a shape identity returns a node, registers it and
  appends it to the root as the last child it adds. Any lowering of the same identity
  later in the pass returns that registered node and changes nothing, so the node is not
  appended again. A re-entrant lowering, made while the first one is still in progress,
  returns none (and changes nothing): the node is registered only when it is complete.
\<close>

theorem C3_lowering_cached:
  assumes new: "shape_uri \<notin> processed_shapes s"
    and unregistered: "node_shape_map s shape_uri = None"
    and first: "process_node_shape (Suc fuel) g shape_uri s = ret (r, s1)"
    and during:
      "later g (s\<lparr>processed_shapes := insert shape_uri (processed_shapes s)\<rparr>) s_in"
    and after: "later g s1 s2"
  shows "\<exists>ct inner.
           r = Some ct
           \<and> root_children s1 = root_children s @ inner @ [ct]
           \<and> process_node_shape (Suc fuel') g shape_uri s2 = ret (Some ct, s2)
           \<and> process_node_shape (Suc fuel') g shape_uri s_in = ret (None, s_in)"
proof -
  from first have body: "node_shape_body (process_node_shape fuel g) g shape_uri s = ret (r, s1)"
    by simp
  from node_shape_body_first [OF process_node_shape_sound new body]
  obtain ct where r: "r = Some ct" and in1: "shape_uri \<in> processed_shapes s1"
    and m1: "node_shape_map s1 shape_uri = Some ct"
    by auto
  from process_node_shape_root [OF new first] r obtain inner where
    root: "root_children s1 = root_children s @ inner @ [ct]"
    by auto
  from later_extends [OF after] in1 m1
  have in2: "shape_uri \<in> processed_shapes s2" and m2: "node_shape_map s2 shape_uri = Some ct"
    by (auto simp: extends_def)
  from process_node_shape_cached [OF in2, of fuel' g] m2
  have again: "process_node_shape (Suc fuel') g shape_uri s2 = ret (Some ct, s2)"
    by simp
  from later_extends [OF during] unregistered
  have in3: "shape_uri \<in> processed_shapes s_in" and m3: "node_shape_map s_in shape_uri = None"
    by (auto simp: extends_def)
  from process_node_shape_cached [OF in3, of fuel' g] m3
  have "process_node_shape (Suc fuel') g shape_uri s_in = ret (None, s_in)"
    by simp
  with r root again show ?thesis by blast
qed

text \<open>
  C3, as stated, fails on a cyclic base: the first lowering of \<^verbatim>\<open>A\<close> (whose \<^verbatim>\<open>sh:node\<close>
  is \<^verbatim>\<open>A\<close>) calls the lowering of \<^verbatim>\<open>A\<close> again in the state where \<^verbatim>\<open>A\<close> is marked
  processed; that call returns none, not the node the first lowering produces.
\<close>

theorem C3_reentrant_call_returns_none:
  "SHACL_objects g_self (ex ''NodeShape/A'') (sh ''node'') = [ex ''NodeShape/A'']
   \<and> returned (process_node_shape 1 g_self (ex ''NodeShape/A'')
        (pass_start\<lparr>processed_shapes :=
           insert (ex ''NodeShape/A'') (processed_shapes pass_start)\<rparr>)) = Some None
   \<and> returned (process_node_shape 2 g_self (ex ''NodeShape/A'') pass_start)
       = Some (Some (Element T_complexType [(''name'', ''A'')] []))"
  by code_simp

theorem C3_lowering_cached_witness:
  "ex ''NodeShape/A'' \<notin> processed_shapes pass_start
   \<and> node_shape_map pass_start (ex ''NodeShape/A'') = None
   \<and> (\<exists>s1. process_node_shape 2 g_self (ex ''NodeShape/A'') pass_start
              = ret (Some (Element T_complexType [(''name'', ''A'')] []), s1)
          \<and> process_node_shape 1 g_self (ex ''NodeShape/A'') s1
              = ret (Some (Element T_complexType [(''name'', ''A'')] []), s1))
   \<and> returned (process_node_shape 1 g_self (ex ''NodeShape/A'')
        (pass_start\<lparr>processed_shapes :=
           insert (ex ''NodeShape/A'') (processed_shapes pass_start)\<rparr>)) = Some None"
proof -
  have new: "ex ''NodeShape/A'' \<notin> processed_shapes pass_start"
    by (simp add: pass_start_def init_state_def)
  have un: "node_shape_map pass_start (ex ''NodeShape/A'') = None"
    by (simp add: pass_start_def init_state_def)
  have "returned (process_node_shape 2 g_self (ex ''NodeShape/A'') pass_start)
          = Some (Some (Element T_complexType [(''name'', ''A'')] []))"
    by code_simp
  then obtain s1 where run:
    "process_node_shape (Suc 1) g_self (ex ''NodeShape/A'') pass_start
       = ret (Some (Element T_complexType [(''name'', ''A'')] []), s1)"
    using returned_Some by (fastforce simp: numeral_2_eq_2)
  from C3_lowering_cached [OF new un run later_refl later_refl, of 0]
  have "process_node_shape (Suc 0) g_self (ex ''NodeShape/A'') s1
          = ret (Some (Element T_complexType [(''name'', ''A'')] []), s1)"
    and "process_node_shape (Suc 0) g_self (ex ''NodeShape/A'')
           (pass_start\<lparr>processed_shapes :=
              insert (ex ''NodeShape/A'') (processed_shapes pass_start)\<rparr>)
          = ret (None, pass_start\<lparr>processed_shapes :=
              insert (ex ''NodeShape/A'') (processed_shapes pass_start)\<rparr>)"
    by auto
  with run new un show ?thesis
    by (auto simp: numeral_2_eq_2)
qed

lemma remember_property_root:
  "remember_property x e s = ret (r, s') \<Longrightarrow> xsd_root s' = xsd_root s"
  by (auto simp: remember_property_def)

lemma process_property_shape_root:
  assumes "process_property_shape g x s = ret (r, s')"
  shows "root_children s' = root_children s"
proof -
  let ?s1 = "s\<lparr>processed_shapes := insert x (processed_shapes s)\<rparr>"
  from assms consider "s' = s" | "s' = ?s1" | e where "remember_property x e ?s1 = ret (r, s')"
    by (auto simp: process_property_shape_def run_bind_eq_ret
        split: if_splits option.splits)
  then show ?thesis
  proof cases
    case 3
    from remember_property_root [OF 3] show ?thesis by (simp add: root_children_def)
  qed (auto simp: root_children_def)
qed

lemma process_standalone_root:
  "process_standalone g ps s = ret s' \<Longrightarrow>
   \<exists>es. root_children s' = root_children s @ es \<and> list_all (\<lambda>e. tag e = T_element) es"
proof (induction ps arbitrary: s)
  case Nil
  then show ?case by simp
next
  case (Cons p ps)
  from Cons.prems obtain r s1 where
    p: "process_property_shape g p s = ret (r, s1)"
    and rest: "(case r of
                  None \<Rightarrow> process_standalone g ps s1
                | Some e \<Rightarrow>
                    if tag e = T_element
                    then run_bind (root_append e s1) (process_standalone g ps)
                    else process_standalone g ps s1) = ret s'"
    by (auto simp: run_bind_eq_ret)
  note r1 = process_property_shape_root [OF p]
  show ?case
  proof (cases "\<exists>e. r = Some e \<and> tag e = T_element")
    case True
    then obtain e where e: "r = Some e" "tag e = T_element" by auto
    with rest obtain s2 where a: "root_append e s1 = ret s2"
      and b: "process_standalone g ps s2 = ret s'"
      by (auto simp: run_bind_eq_ret)
    from Cons.IH [OF b] obtain es where
      "root_children s' = root_children s2 @ es" "list_all (\<lambda>e. tag e = T_element) es"
      by auto
    with root_append_facts(1) [OF a] r1 e(2)
    have "root_children s' = root_children s @ (e # es)
          \<and> list_all (\<lambda>e. tag e = T_element) (e # es)"
      by simp
    then show ?thesis by blast
  next
    case False
    with rest have "process_standalone g ps s1 = ret s'"
      by (cases r) (auto split: if_splits)
    from Cons.IH [OF this] r1 show ?thesis by simp
  qed
qed

lemma children_set_attr [simp]: "children (set_attr k v e) = children e"
  by (simp add: set_attr_def)

lemma children_set_nsmap [simp]: "children (set_nsmap m r) = children r"
  by (induction m arbitrary: r) auto

lemma create_xsd_root_children:
  "create_xsd_root s = ret s0 \<Longrightarrow> root_children s0 = []"
  by (auto simp: create_xsd_root_def root_children_def ET_Element_def ret_def raise_def
      split: if_splits)

text \<open>
  C2 (amended). The root's children stand in the order in which the traversal appends
  them. A first lowering of a node shape appends, after whatever its nested lowerings
  append, one element per target class and then the shape's own complex type, so an
  element of a later shape follows the complex type of an earlier one. The elements of
  property shapes that no node shape reached are appended after the whole node-shape
  pass, hence after every complex type.
\<close>

theorem C2_root_in_traversal_order:
  assumes "convert fuel g s = ret s_final"
  shows "(\<exists>s0 s1 standalone.
            create_xsd_root s = ret s0
            \<and> root_children s0 = []
            \<and> process_node_shapes fuel g (SHACL_subjects g RDF_type (sh ''NodeShape'')) s0
                = ret s1
            \<and> root_children s_final = root_children s1 @ standalone
            \<and> list_all (\<lambda>e. tag e = T_element) standalone)
       \<and> (\<forall>shape_uri sa r sb.
            shape_uri \<notin> processed_shapes sa
            \<and> process_node_shape fuel g shape_uri sa = ret (r, sb) \<longrightarrow>
            (\<exists>inner elements complex_type.
               r = Some complex_type
               \<and> tag complex_type = T_complexType
               \<and> list_all (\<lambda>e. tag e = T_element) elements
               \<and> length elements = length (SHACL_objects g shape_uri (sh ''targetClass''))
               \<and> root_children sb = root_children sa @ inner @ elements @ [complex_type]))"
proof (intro conjI allI impI)
  from assms obtain s0 s1 where
    c: "create_xsd_root s = ret s0"
    and n: "process_node_shapes fuel g (SHACL_subjects g RDF_type (sh ''NodeShape'')) s0 = ret s1"
    and p: "process_standalone g
              (filter (\<lambda>ps. ps \<notin> processed_shapes s1)
                 (SHACL_subjects g RDF_type (sh ''PropertyShape''))) s1 = ret s_final"
    by (auto simp: convert_def run_bind_eq_ret)
  from process_standalone_root [OF p] obtain es where
    "root_children s_final = root_children s1 @ es" "list_all (\<lambda>e. tag e = T_element) es"
    by auto
  with c n create_xsd_root_children [OF c]
  show "\<exists>s0 s1 standalone.
            create_xsd_root s = ret s0
            \<and> root_children s0 = []
            \<and> process_node_shapes fuel g (SHACL_subjects g RDF_type (sh ''NodeShape'')) s0
                = ret s1
            \<and> root_children s_final = root_children s1 @ standalone
            \<and> list_all (\<lambda>e. tag e = T_element) standalone"
    by blast
next
  fix shape_uri sa r sb
  assume a: "shape_uri \<notin> processed_shapes sa
            \<and> process_node_shape fuel g shape_uri sa = ret (r, sb)"
  then obtain f where f: "fuel = Suc f"
    by (cases fuel) auto
  with a have new: "shape_uri \<notin> processed_shapes sa"
    and run: "process_node_shape (Suc f) g shape_uri sa = ret (r, sb)"
    by auto
  from process_node_shape_root [OF new run] obtain ct inner where
    r: "r = Some ct" "tag ct = T_complexType"
    and root: "root_children sb = root_children sa @ inner
                @ replicate (length (SHACL_objects g shape_uri (sh ''targetClass'')))
                    (Element T_element
                       [(''name'', get_shape_name g shape_uri),
                        (''type'', target_type g shape_uri (base_lowered f g shape_uri sa))] [])
                @ [ct]"
    by auto
  let ?es = "replicate (length (SHACL_objects g shape_uri (sh ''targetClass'')))
               (Element T_element
                  [(''name'', get_shape_name g shape_uri),
                   (''type'', target_type g shape_uri (base_lowered f g shape_uri sa))] [])"
  have "list_all (\<lambda>e. tag e = T_element) ?es"
    by (simp add: list_all_iff)
  moreover have "length ?es = length (SHACL_objects g shape_uri (sh ''targetClass''))"
    by simp
  ultimately show "\<exists>inner elements complex_type.
               r = Some complex_type
               \<and> tag complex_type = T_complexType
               \<and> list_all (\<lambda>e. tag e = T_element) elements
               \<and> length elements = length (SHACL_objects g shape_uri (sh ''targetClass''))
               \<and> root_children sb = root_children sa @ inner @ elements @ [complex_type]"
    using r root by blast
qed

text \<open>
  C2, as stated, fails: with two node shapes that each declare a target class the root
  holds element, complex type, element, complex type (and then the element of a property
  shape no node shape reached); the complex type of the first shape precedes the element
  of the second.
\<close>

theorem C2_complex_type_before_element:
  "final_root (convert 2 g_two init_state)
     = [Element T_element [(''name'', ''A''), (''type'', ''A'')] [],
        Element T_complexType [(''name'', ''A'')] [],
        Element T_element [(''name'', ''B''), (''type'', ''B'')] [],
        Element T_complexType [(''name'', ''B'')] [],
        Element T_element [(''name'', ''q'')] []]
   \<and> \<not> elements_first (final_root (convert 2 g_two init_state))"
  by code_simp

lemma final_root_nonempty: "final_root m \<noteq> [] \<Longrightarrow> \<exists>s. m = ret s"
  by (auto simp: final_root_def ret_def split: option.splits sum.splits)

theorem C2_root_in_traversal_order_witness:
  "\<exists>s_final s1 standalone.
     convert 2 g_two init_state = ret s_final
     \<and> root_children s_final = root_children s1 @ standalone
     \<and> list_all (\<lambda>e. tag e = T_element) standalone
     \<and> map tag (root_children s_final)
         = [T_element, T_complexType, T_element, T_complexType, T_element]"
proof -
  have v: "map tag (final_root (convert 2 g_two init_state))
             = [T_element, T_complexType, T_element, T_complexType, T_element]"
    by code_simp
  then have "final_root (convert 2 g_two init_state) \<noteq> []"
    by auto
  then obtain s_final where run: "convert 2 g_two init_state = ret s_final"
    using final_root_nonempty by blast
  from C2_root_in_traversal_order [OF run] obtain s1 standalone where
    "root_children s_final = root_children s1 @ standalone"
    "list_all (\<lambda>e. tag e = T_element) standalone"
    by blast
  with run v show ?thesis by auto
qed

lemma terminates_ret [simp]: "terminates (ret x)"
  and terminates_raise [simp]: "terminates (raise e)"
  and terminates_None [simp]: "\<not> terminates None"
  by (simp_all add: terminates_def)

lemma terminates_bind:
  "terminates m \<Longrightarrow> (\<And>v. m = ret v \<Longrightarrow> terminates (f v)) \<Longrightarrow> terminates (run_bind m f)"
  by (auto simp: terminates_def run_bind_def ret_def split: option.splits sum.splits)

lemma no_subject_no_objects:
  "x \<notin> graph_subjects g \<Longrightarrow> SHACL_objects g x p = []"
  by (auto simp: graph_subjects_def SHACL_objects_def filter_empty_conv image_iff)

lemma card_unprocessed_mono:
  assumes "extends s s'"
  shows "card (graph_subjects g - processed_shapes s')
           \<le> card (graph_subjects g - processed_shapes s)"
proof -
  have "finite (graph_subjects g - processed_shapes s)"
    by (simp add: graph_subjects_def)
  moreover have "graph_subjects g - processed_shapes s'
                   \<subseteq> graph_subjects g - processed_shapes s"
    using assms by (auto simp: extends_def)
  ultimately show ?thesis by (rule card_mono)
qed

lemma card_unprocessed_enter:
  assumes "x \<in> graph_subjects g" and "x \<notin> processed_shapes s"
  shows "card (graph_subjects g - insert x (processed_shapes s))
           < card (graph_subjects g - processed_shapes s)"
proof -
  have "finite (graph_subjects g - processed_shapes s)"
    by (simp add: graph_subjects_def)
  moreover have "graph_subjects g - insert x (processed_shapes s)
                   \<subset> graph_subjects g - processed_shapes s"
    using assms by auto
  ultimately show ?thesis by (rule psubset_card_mono)
qed

lemma walks_returnD: "walks_return g \<Longrightarrow> \<exists>items. get_rdf_list_items g l = Some items"
  by (simp add: walks_return_def)

lemma process_list_constraints_returns:
  assumes "walks_return g"
  shows "\<exists>e'. process_list_constraints g x e = Some e'"
proof (cases "SHACL_objects g x (sh ''in'')")
  case Nil
  then show ?thesis by (simp add: process_list_constraints_def)
next
  case (Cons in_value other_values)
  from walks_returnD [OF assms, of in_value] obtain vals where
    "get_rdf_list_items g in_value = Some vals" by blast
  with Cons show ?thesis by (simp add: process_list_constraints_def)
qed

lemma property_plain_element_terminates:
  assumes "walks_return g"
  shows "terminates (property_plain_element g x a e)"
proof -
  have "terminates (case process_list_constraints g x e' of
           None \<Rightarrow> None
         | Some element2 \<Rightarrow> ret (process_facet_constraints g x element2))" for e'
    using process_list_constraints_returns [OF assms, of x e'] by auto
  then show ?thesis
    by (simp add: property_plain_element_def split: sum.splits)
qed

lemma process_property_shape_terminates:
  assumes "walks_return g"
  shows "terminates (process_property_shape g x s)"
proof -
  let ?s1 = "s\<lparr>processed_shapes := insert x (processed_shapes s)\<rparr>"
  have a: "terminates (remember_property x e ?s1)" for e
    by (simp add: remember_property_def)
  have b: "terminates (case property_or_element g l e of
              None \<Rightarrow> None
            | Some element \<Rightarrow> remember_property x element ?s1)" for l e
  proof -
    from walks_returnD [OF assms, of l] obtain items where
      "get_rdf_list_items g l = Some items" by blast
    then show ?thesis using a by (simp add: property_or_element_def)
  qed
  have c: "terminates (run_bind (property_plain_element g x at e)
             (\<lambda>element. remember_property x element ?s1))" for at e
    using property_plain_element_terminates [OF assms] a
    by (intro terminates_bind) auto
  show ?thesis
    unfolding process_property_shape_def using b c by simp
qed

lemma process_properties_terminates:
  "walks_return g \<Longrightarrow> terminates (process_properties g props container ct s)"
proof (induction props arbitrary: ct s)
  case Nil
  then show ?case by simp
next
  case (Cons p props)
  show ?case
    using process_property_shape_terminates [OF Cons.prems] Cons.IH [OF Cons.prems]
    by (auto intro!: terminates_bind)
qed

lemma root_append_terminates: "terminates (root_append e s)"
  by (simp add: root_append_def split: option.splits)

lemma emit_target_elements_terminates: "terminates (emit_target_elements e tcs s)"
  by (induction tcs arbitrary: s) (auto intro!: terminates_bind root_append_terminates)

lemma emit_node_shape_terminates: "terminates (emit_node_shape g x ext ct s)"
  by (auto simp: emit_node_shape_def
      intro!: terminates_bind root_append_terminates emit_target_elements_terminates)

lemma lower_properties_terminates:
  "walks_return g \<Longrightarrow> terminates (lower_properties g x ext ct s)"
  by (simp add: lower_properties_def process_properties_terminates)

lemma rdf_list_items_body_terminates:
  assumes snd: "sound lower" and below: "returns_below lower g n" and w: "walks_return g"
  shows "card (graph_subjects g - processed_shapes s) < n \<Longrightarrow>
         terminates (rdf_list_items_body lower g items p s)"
proof (induction items arbitrary: p s)
  case Nil
  then show ?case by simp
next
  case (Cons item items)
  show ?case
  proof (cases "SHACL_contains g (item, RDF_type, sh ''PropertyShape'')")
    case True
    have "terminates (rdf_list_items_body lower g items p' s')"
      if "process_property_shape g item s = ret (r, s')" for r s' p'
    proof -
      from card_unprocessed_mono [OF process_property_shape_extends [OF that], of g] Cons.prems
      have "card (graph_subjects g - processed_shapes s') < n" by simp
      then show ?thesis by (rule Cons.IH)
    qed
    with True process_property_shape_terminates [OF w, of item s] show ?thesis
      by (auto intro!: terminates_bind)
  next
    case False
    have l: "terminates (lower item s)"
      using below Cons.prems by (simp add: returns_below_def)
    have "terminates (rdf_list_items_body lower g items p' s')"
      if "lower item s = ret (r, s')" for r s' p'
    proof -
      from snd that have "extends s s'" by (auto simp: sound_def)
      from card_unprocessed_mono [OF this, of g] Cons.prems
      have "card (graph_subjects g - processed_shapes s') < n" by simp
      then show ?thesis by (rule Cons.IH)
    qed
    with False l show ?thesis
      by (auto intro!: terminates_bind)
  qed
qed

lemma rdf_list_body_terminates:
  assumes "sound lower" "returns_below lower g n" "walks_return g"
    and "card (graph_subjects g - processed_shapes s) < n"
  shows "terminates (rdf_list_body lower g l p s)"
proof -
  from walks_returnD [OF assms(3), of l] obtain items where
    "get_rdf_list_items g l = Some items" by blast
  with rdf_list_items_body_terminates [OF assms] show ?thesis
    by (simp add: rdf_list_body_def)
qed

lemma choice_constraint_body_terminates:
  assumes "sound lower" "returns_below lower g n" "walks_return g"
    and "card (graph_subjects g - processed_shapes s) < n"
  shows "terminates (choice_constraint_body lower g l p b s)"
proof -
  from walks_returnD [OF assms(3), of l] obtain items where
    "get_rdf_list_items g l = Some items" by blast
  with rdf_list_body_terminates [OF assms] show ?thesis
    by (auto simp: choice_constraint_body_def intro!: terminates_bind)
qed

lemma lower_base_terminates:
  assumes "sound lower" "returns_below lower g n"
    and "x \<in> graph_subjects g \<longrightarrow> card (graph_subjects g - processed_shapes s) < n"
  shows "terminates (lower_base lower g x s)"
proof (cases "SHACL_objects g x (sh ''node'')")
  case Nil
  then show ?thesis by (simp add: lower_base_def)
next
  case (Cons b bs)
  then have "x \<in> graph_subjects g"
    using no_subject_no_objects [of x g "sh ''node''"] by auto
  with assms have "terminates (lower b s)"
    by (simp add: returns_below_def)
  with Cons show ?thesis
    by (auto simp: lower_base_def intro!: terminates_bind)
qed

lemma lower_choice_terminates:
  assumes "sound lower" "returns_below lower g n" "walks_return g"
    and "x \<in> graph_subjects g \<longrightarrow> card (graph_subjects g - processed_shapes s) < n"
  shows "terminates (lower_choice lower g x b ext ct s)"
proof (cases "SHACL_objects g x (sh (if b then ''xone'' else ''or''))")
  case Nil
  then show ?thesis by (simp add: lower_choice_def)
next
  case (Cons l ls)
  then have "x \<in> graph_subjects g"
    using no_subject_no_objects [of x g "sh (if b then ''xone'' else ''or'')"] by auto
  with assms(4) have "card (graph_subjects g - processed_shapes s) < n" by simp
  from choice_constraint_body_terminates [OF assms(1-3) this] Cons show ?thesis
    by (auto simp: lower_choice_def intro!: terminates_bind)
qed

lemma node_shape_body_terminates:
  assumes snd: "sound lower" and below: "returns_below lower g n" and w: "walks_return g"
    and m: "card (graph_subjects g - processed_shapes s) < Suc n"
  shows "terminates (node_shape_body lower g x s)"
proof (cases "x \<in> processed_shapes s")
  case True
  then show ?thesis by (simp add: node_shape_body_def)
next
  case False
  let ?s0 = "s\<lparr>processed_shapes := insert x (processed_shapes s)\<rparr>"
  define ok where "ok t \<longleftrightarrow> (x \<in> graph_subjects g \<longrightarrow>
                     card (graph_subjects g - processed_shapes t) < n)" for t :: state
  have ok0: "ok ?s0"
    using card_unprocessed_enter [of x g s] False m by (auto simp: ok_def)
  have step: "ok t'" if "ok t" "extends t t'" for t t'
    using that card_unprocessed_mono [OF that(2), of g] by (auto simp: ok_def)
  have b: "terminates (lower_base lower g x ?s0)"
    using lower_base_terminates [OF snd below] ok0 by (simp add: ok_def)
  have c: "terminates (lower_choice lower g x b ext ct t)" if "ok t" for b ext ct t
    using lower_choice_terminates [OF snd below w] that by (simp add: ok_def)
  have "terminates
          (run_bind (lower_base lower g x ?s0)
             (\<lambda>(extension, s1).
                run_bind
                  (lower_choice lower g x True extension (new_complex_type g x extension) s1)
                  (\<lambda>(complex_type, s2).
                     run_bind (lower_choice lower g x False extension complex_type s2)
                       (\<lambda>(complex_type, s3).
                          run_bind (lower_properties g x extension complex_type s3)
                            (\<lambda>(complex_type, s4).
                               emit_node_shape g x extension complex_type s4)))))"
  proof (rule terminates_bind [OF b], clarify)
    fix extension s1
    assume r1: "lower_base lower g x ?s0 = ret (extension, s1)"
    have ok1: "ok s1" using step [OF ok0 lower_base_extends [OF snd r1]] .
    show "terminates
            (run_bind
               (lower_choice lower g x True extension (new_complex_type g x extension) s1)
               (\<lambda>(complex_type, s2).
                  run_bind (lower_choice lower g x False extension complex_type s2)
                    (\<lambda>(complex_type, s3).
                       run_bind (lower_properties g x extension complex_type s3)
                         (\<lambda>(complex_type, s4).
                            emit_node_shape g x extension complex_type s4))))"
    proof (rule terminates_bind [OF c [OF ok1]], clarify)
      fix ct1 s2
      assume r2: "lower_choice lower g x True extension (new_complex_type g x extension) s1
                    = ret (ct1, s2)"
      have ok2: "ok s2" using step [OF ok1 lower_choice_extends [OF snd r2]] .
      show "terminates
              (run_bind (lower_choice lower g x False extension ct1 s2)
                 (\<lambda>(complex_type, s3).
                    run_bind (lower_properties g x extension complex_type s3)
                      (\<lambda>(complex_type, s4).
                         emit_node_shape g x extension complex_type s4)))"
        by (rule terminates_bind [OF c [OF ok2]], clarify,
            rule terminates_bind [OF lower_properties_terminates [OF w]], clarify,
            rule emit_node_shape_terminates)
    qed
  qed
  with False show ?thesis by (simp add: node_shape_body_def)
qed

lemma process_node_shape_returns_below:
  "walks_return g \<Longrightarrow> returns_below (process_node_shape fuel g) g fuel"
proof (induction fuel)
  case 0
  show ?case by (simp add: returns_below_def)
next
  case (Suc fuel)
  show ?case
    unfolding returns_below_def
  proof (intro allI impI)
    fix x and s :: state
    assume "card (graph_subjects g - processed_shapes s) < Suc fuel"
    from node_shape_body_terminates
      [OF process_node_shape_sound Suc.IH [OF Suc.prems] Suc.prems this]
    show "terminates (process_node_shape (Suc fuel) g x s)"
      by simp
  qed
qed

text \<open>
  C4 (amended). On a graph whose list walks all return, a lowering of a node shape
  terminates (it returns or raises) whenever the nesting budget exceeds the number of
  subjects of the graph that are not yet processed; cycles of \<^verbatim>\<open>sh:node\<close>, direct or
  transitive, make no difference, because a shape identity that was entered before
  returns at once from the processed-set check. The recursion limit of the interpreter
  is not modelled.
\<close>

theorem C4_base_cycles_terminate:
  assumes "walks_return g"
    and "card (graph_subjects g - processed_shapes s) < fuel"
  shows "terminates (process_node_shape fuel g shape_uri s)
       \<and> (shape_uri \<in> processed_shapes s \<longrightarrow>
            process_node_shape fuel g shape_uri s = ret (node_shape_map s shape_uri, s))"
proof
  from process_node_shape_returns_below [OF assms(1), of fuel] assms(2)
  show "terminates (process_node_shape fuel g shape_uri s)"
    by (simp add: returns_below_def)
  from assms(2) obtain f where "fuel = Suc f"
    by (cases fuel) auto
  then show "shape_uri \<in> processed_shapes s \<longrightarrow>
        process_node_shape fuel g shape_uri s = ret (node_shape_map s shape_uri, s)"
    by (simp add: node_shape_body_def)
qed

lemma g_cycle_walks_return: "walks_return g_cycle"
  unfolding walks_return_def get_rdf_list_items_def
proof
  fix list_node
  have nil: "rdf_list_walk g_cycle RDF_nil items \<noteq> None" for items
    by (subst rdf_list_walk.simps) simp
  show "rdf_list_walk g_cycle list_node [] \<noteq> None"
  proof (cases "list_node = BNode ''x1''")
    case True
    have "SHACL_value g_cycle (BNode ''x1'') RDF_rest = Some RDF_nil"
      by code_simp
    moreover have "BNode ''x1'' \<noteq> RDF_nil" "truthy RDF_nil"
      by (simp_all add: rdf_def)
    ultimately show ?thesis
      using True nil by (subst rdf_list_walk.simps) simp
  next
    case False
    then have "SHACL_value g_cycle list_node RDF_rest = None"
      by (simp add: SHACL_value_def SHACL_objects_def g_cycle_def rdf_def sh_def ex_def)
    then show ?thesis
      by (subst rdf_list_walk.simps) simp
  qed
qed

theorem C4_base_cycles_terminate_witness:
  "walks_return g_cycle
   \<and> card (graph_subjects g_cycle - processed_shapes pass_start) < 4
   \<and> SHACL_objects g_cycle (ex ''NodeShape/A'') (sh ''node'') = [ex ''NodeShape/B'']
   \<and> SHACL_objects g_cycle (ex ''NodeShape/B'') (sh ''node'') = [ex ''NodeShape/A'']
   \<and> terminates (process_node_shape 4 g_cycle (ex ''NodeShape/A'') pass_start)"
proof -
  have c: "card (graph_subjects g_cycle - processed_shapes pass_start) < 4"
    by code_simp
  have o: "SHACL_objects g_cycle (ex ''NodeShape/A'') (sh ''node'') = [ex ''NodeShape/B'']
           \<and> SHACL_objects g_cycle (ex ''NodeShape/B'') (sh ''node'') = [ex ''NodeShape/A'']"
    by code_simp
  from C4_base_cycles_terminate [OF g_cycle_walks_return c, of "ex ''NodeShape/A''"]
  have "terminates (process_node_shape 4 g_cycle (ex ''NodeShape/A'') pass_start)"
    by blast
  with g_cycle_walks_return c o show ?thesis by blast
qed

text \<open>
  C4, as stated for every shape graph, fails: where the \<^verbatim>\<open>rdf:rest\<close> of a list cell leads
  back to the cell, the walk of \<^verbatim>\<open>get_rdf_list_items\<close> never returns, and with it no
  lowering of the node shape whose \<^verbatim>\<open>sh:or\<close> is that list, whatever the nesting budget.
\<close>

lemma g_loop_walk: "rdf_list_walk g_loop (BNode ''c'') items = None"
proof (rule ccontr)
  assume "rdf_list_walk g_loop (BNode ''c'') items \<noteq> None"
  then obtain r where r: "rdf_list_walk g_loop (BNode ''c'') items = Some r"
    by auto
  have v: "SHACL_value g_loop (BNode ''c'') RDF_rest = Some (BNode ''c'')"
    by code_simp
  have n: "RDF_nil \<noteq> BNode ''c''"
    by (simp add: rdf_def)
  have "g_loop = g_loop \<and> BNode ''c'' = BNode ''c'' \<longrightarrow> False"
    apply (rule rdf_list_walk.raw_induct
          [where P = "\<lambda>g list_node its y. g = g_loop \<and> list_node = BNode ''c'' \<longrightarrow> False",
            OF _ r])
    apply (clarsimp simp: v n split: if_splits)
     apply blast
    apply blast
    done
  then show False by simp
qed

theorem C4_cyclic_list_never_returns:
  "SHACL_objects g_loop (ex ''NodeShape/N'') (sh ''or'') = [BNode ''c'']
   \<and> SHACL_value g_loop (BNode ''c'') RDF_rest = Some (BNode ''c'')
   \<and> get_rdf_list_items g_loop (BNode ''c'') = None
   \<and> (\<forall>fuel. process_node_shape fuel g_loop (ex ''NodeShape/N'') pass_start = None)"
proof -
  have o: "SHACL_objects g_loop (ex ''NodeShape/N'') (sh ''or'') = [BNode ''c'']"
    by code_simp
  have v: "SHACL_value g_loop (BNode ''c'') RDF_rest = Some (BNode ''c'')"
    by code_simp
  have w: "get_rdf_list_items g_loop (BNode ''c'') = None"
    by (simp add: get_rdf_list_items_def g_loop_walk)
  have b: "SHACL_objects g_loop (ex ''NodeShape/N'') (sh ''node'') = []"
    by code_simp
  have x: "SHACL_objects g_loop (ex ''NodeShape/N'') (sh ''xone'') = []"
    by code_simp
  have new: "ex ''NodeShape/N'' \<notin> processed_shapes pass_start"
    by (simp add: pass_start_def init_state_def)
  have "process_node_shape fuel g_loop (ex ''NodeShape/N'') pass_start = None" for fuel
  proof (cases fuel)
    case 0
    then show ?thesis by simp
  next
    case (Suc f)
    have "choice_constraint_body lower g_loop (BNode ''c'') p False t = None" for lower p t
      using w by (simp add: choice_constraint_body_def)
    then show ?thesis
      using Suc new o b x
      by (simp add: node_shape_body_def lower_base_def lower_choice_def)
  qed
  with o v w show ?thesis by blast
qed

lemma run_cases:
  fixes m :: "'a run"
  obtains "m = None" | e where "m = raise e" | x where "m = ret x"
proof (cases m)
  case None
  then show ?thesis using that by simp
next
  case (Some a)
  then show ?thesis using that by (cases a) (auto simp: raise_def ret_def)
qed


lemma run_bind_ret_right [simp]: "run_bind m ret = m"
  by (cases m rule: run_cases) simp_all

lemma append_children_Nil [simp]: "append_children [] p = p"
  by (cases p) (simp add: append_children_def)










end
